theory Spec2Isabelle
  imports Complex_Main "HOL-Library.Sublist"
begin

unbundle bit_operations_syntax

section \<open>File integrity monitor: the baseline and diff engine\<close>

text \<open>
  A shallow embedding of \<^verbatim>\<open>fim/hasher.py\<close>, \<^verbatim>\<open>fim/database.py\<close> and
  \<^verbatim>\<open>fim/monitor.py\<close>. Python strings are \<open>string\<close>, Python ints are \<open>int\<close>,
  the floats that \<^verbatim>\<open>os.stat\<close> and \<^verbatim>\<open>time.time\<close> return are \<open>real\<close> (they are only
  stored and compared for equality, and neither call returns a NaN). Exceptions are
  values of \<open>exn\<close>; a function that can raise returns \<open>exn + 'a\<close>. The connection
  handle, the table, the clock and the logger are one explicit state that every
  effectful function takes and returns.
\<close>

subsection \<open>Exceptions, log records, the environment\<close>

text \<open>
  The exceptions the code tells apart: \<^verbatim>\<open>FileNotFoundError\<close>, \<^verbatim>\<open>ValueError\<close>
  and \<^verbatim>\<open>sqlite3.Error\<close>; \<open>OSError\<close> is any other \<^verbatim>\<open>OSError\<close>
  (\<^verbatim>\<open>PermissionError\<close>, \<^verbatim>\<open>IsADirectoryError\<close>, ...). The calls \<^verbatim>\<open>os.stat\<close>, \<^verbatim>\<open>open\<close>
  and \<^verbatim>\<open>read\<close> raise only the two kinds of \<open>os_error\<close>.
\<close>

datatype exn = FileNotFoundError | OSError | ValueError | SqliteError

datatype os_error = NotFound | OtherOSError

fun os_exn :: "os_error \<Rightarrow> exn" where
  "os_exn NotFound = FileNotFoundError"
| "os_exn OtherOSError = OSError"

datatype level = DEBUG | INFO | WARNING | ERROR | CRITICAL

text \<open>One constructor per call of \<^verbatim>\<open>fim_logger\<close>, carrying what its f-string interpolates.\<close>

datatype event =
    HashingFile string string
  | HashGenerated string string
  | HashFileNotFound string
  | HashFailed string exn
  | ConnOpened
  | ConnFailed exn
  | DbInitialized
  | DbInitFailed exn
  | DbSaved string
  | DbSaveFailed string exn
  | DbRetrieveFailed string exn
  | DbAllPathsFailed exn
  | DbRemoved string
  | DbRemoveFailed string exn
  | MetadataFailed string exn
  | CreatingBaseline
  | IncludeMissing string
  | ProcessFailed string exn
  | BaselineCreated nat
  | CheckingIntegrity
  | AddedDetected string
  | DeletedDetected string
  | AddedEdgeCase string
  | SizeMismatch string
  | MtimeMismatch string
  | PermissionsMismatch string
  | HashMismatch string
  | CheckFailed string exn
  | CheckComplete

type_synonym bytes = "char list"

record stat_result =
  st_size :: int
  st_mtime :: real
  st_ctime :: real
  st_mode :: int

text \<open>The statements \<^verbatim>\<open>sqlite3\<close> is asked to run; each may fail with \<^verbatim>\<open>sqlite3.Error\<close>.\<close>

datatype db_op = OpConnect | OpCreateTable | OpSave string | OpGet string | OpAllPaths
  | OpRemove string

text \<open>
  What the code takes from the operating system, the standard library and the
  configuration file: \<^verbatim>\<open>os.path.abspath\<close>, \<^verbatim>\<open>os.path.exists\<close>, \<^verbatim>\<open>os.walk\<close> (the
  triples \<open>(root, dirs, files)\<close> it yields), \<^verbatim>\<open>os.stat\<close>, the bytes
  \<^verbatim>\<open>open(p, 'rb')\<close> reads (or the exception opening or reading raises),
  \<^verbatim>\<open>hashlib.algorithms_available\<close>, the hex digest \<^verbatim>\<open>hashlib\<close> computes for an
  algorithm name and a byte string, \<^verbatim>\<open>config.HASH_ALGORITHM\<close>, the value of the
  \<open>n\<close>-th call of \<^verbatim>\<open>time.time\<close>, and which database statements fail.
  An environment is one snapshot: the model covers a call during which the file
  system and the behaviour of the database do not change. The three file-system
  answers are independent of each other, so a file that exists and cannot be read, or
  that can be read and no longer be stat'ed, is an environment too. \<^verbatim>\<open>hashlib.new\<close>
  and \<^verbatim>\<open>hexdigest\<close> succeed for every name in \<^verbatim>\<open>hashlib.algorithms_available\<close>.
\<close>

record env =
  abspath :: "string \<Rightarrow> string"
  path_exists :: "string \<Rightarrow> bool"
  walk :: "string \<Rightarrow> (string \<times> string list \<times> string list) list"
  os_stat :: "string \<Rightarrow> os_error + stat_result"
  open_rb :: "string \<Rightarrow> os_error + bytes"
  algorithms_available :: "string list"
  digest_hex :: "string \<Rightarrow> bytes \<Rightarrow> string"
  HASH_ALGORITHM :: string
  time_time :: "nat \<Rightarrow> real"
  db_fails :: "db_op \<Rightarrow> bool"

text \<open>A row of table \<^verbatim>\<open>monitored_files\<close>; the metadata dictionary has its first five keys.\<close>

record metadata =
  file_path :: string
  file_size :: int
  modification_time :: real
  creation_time :: real
  permissions :: int

record baseline_entry = metadata +
  file_hash :: string
  baseline_timestamp :: real

text \<open>
  The state: \<open>conn\<close> is \<^verbatim>\<open>self.conn is not None\<close>, \<open>rows\<close> the table in insertion
  order (\<^verbatim>\<open>file_path\<close> is its primary key), \<open>clock\<close> counts the calls of
  \<^verbatim>\<open>time.time\<close>, \<open>logged\<close> is what \<^verbatim>\<open>fim_logger\<close> has received.
\<close>

record state =
  conn :: bool
  rows :: "(string \<times> baseline_entry) list"
  clock :: nat
  logged :: "(level \<times> event) list"

definition logmsg :: "level \<Rightarrow> event \<Rightarrow> state \<Rightarrow> state" where
  "logmsg l e s = s\<lparr>logged := logged s @ [(l, e)]\<rparr>"

subsection \<open>Standard-library string functions\<close>

text \<open>\<^verbatim>\<open>str.lower\<close> on ASCII strings; \<^verbatim>\<open>str.startswith\<close> is \<^const>\<open>prefix\<close>.\<close>

definition lower_char :: "char \<Rightarrow> char" where
  "lower_char c =
     (if 65 \<le> (of_char c :: nat) \<and> (of_char c :: nat) \<le> 90
      then char_of ((of_char c :: nat) + 32) else c)"

definition lower :: "string \<Rightarrow> string" where
  "lower s = map lower_char s"

text \<open>\<^verbatim>\<open>posixpath.join\<close> of two components.\<close>

definition path_join :: "string \<Rightarrow> string \<Rightarrow> string" where
  "path_join a b =
     (if prefix ''/'' b then b
      else if a = [] \<or> suffix ''/'' a then a @ b
      else a @ ''/'' @ b)"

subsection \<open>hasher.py\<close>

text \<open>
  A \<^verbatim>\<open>hashlib\<close> object: the algorithm's name and the bytes fed so far (the digest of
  an object is the digest of the concatenation of its updates).
\<close>

record hasher =
  h_name :: string
  h_data :: bytes

definition hashlib_new :: "string \<Rightarrow> hasher" where
  "hashlib_new a = \<lparr>h_name = a, h_data = []\<rparr>"

definition update :: "hasher \<Rightarrow> bytes \<Rightarrow> hasher" where
  "update h chunk = h\<lparr>h_data := h_data h @ chunk\<rparr>"

definition hexdigest :: "env \<Rightarrow> hasher \<Rightarrow> string" where
  "hexdigest E h = digest_hex E (h_name h) (h_data h)"

text \<open>\<^verbatim>\<open>iter(lambda: f.read(4096), b"")\<close>: the chunks up to the first empty read.\<close>

function read_chunks :: "bytes \<Rightarrow> bytes list" where
  "read_chunks bs = (if bs = [] then [] else take 4096 bs # read_chunks (drop 4096 bs))"
  by pat_completeness auto
termination
  by (relation "measure length") auto

declare read_chunks.simps [simp del]

definition calculate_file_hash ::
  "env \<Rightarrow> string \<Rightarrow> string \<Rightarrow> state \<Rightarrow> (exn + string) \<times> state" where
  "calculate_file_hash E fp algorithm0 s =
     (if \<not> path_exists E fp then (Inl FileNotFoundError, s)
      else let algorithm = lower algorithm0 in
      if algorithm \<notin> set (algorithms_available E) then (Inl ValueError, s)
      else let h0 = hashlib_new algorithm;
               s1 = logmsg DEBUG (HashingFile fp algorithm) s in
        (case open_rb E fp of
           Inl NotFound \<Rightarrow>
             (Inl (os_exn NotFound), logmsg ERROR (HashFileNotFound fp) s1)
         | Inl OtherOSError \<Rightarrow>
             (Inl (os_exn OtherOSError), logmsg ERROR (HashFailed fp (os_exn OtherOSError)) s1)
         | Inr content \<Rightarrow>
             (let h = foldl update h0 (read_chunks content);
                  fh = hexdigest E h
              in (Inr fh, logmsg DEBUG (HashGenerated fp fh) s1))))"

subsection \<open>monitor.py: the path matcher\<close>

text \<open>\<^verbatim>\<open>self.monitored_paths\<close>: the lists under its keys \<^verbatim>\<open>include\<close> and \<^verbatim>\<open>exclude\<close>.\<close>

record monitored_paths =
  include_list :: "string list"
  exclude_list :: "string list"

text \<open>
  \<^verbatim>\<open>_is_path_monitored\<close>: the first loop returns \<open>False\<close> at the first exclude entry
  whose absolute path is a prefix of the file path, the second returns \<open>True\<close> at the
  first such include entry.
\<close>

fun any_startswith :: "env \<Rightarrow> string \<Rightarrow> string list \<Rightarrow> bool" where
  "any_startswith E fp [] = False"
| "any_startswith E fp (q # qs) =
     (if prefix (abspath E q) fp then True else any_startswith E fp qs)"

definition is_path_monitored :: "env \<Rightarrow> monitored_paths \<Rightarrow> string \<Rightarrow> bool" where
  "is_path_monitored E M fp =
     (if any_startswith E fp (exclude_list M) then False
      else if any_startswith E fp (include_list M) then True
      else False)"

subsection \<open>database.py\<close>

text \<open>
  \<^verbatim>\<open>_get_connection\<close>: the handle is opened on first use and kept; a failure to open
  is logged and raised again.
\<close>

definition get_connection :: "env \<Rightarrow> state \<Rightarrow> (exn + unit) \<times> state" where
  "get_connection E s =
     (if conn s then (Inr (), s)
      else if db_fails E OpConnect
        then (Inl SqliteError, logmsg CRITICAL (ConnFailed SqliteError) s)
      else (Inr (), logmsg INFO ConnOpened (s\<lparr>conn := True\<rparr>)))"

text \<open>\<^verbatim>\<open>_init_db\<close>: \<^verbatim>\<open>CREATE TABLE IF NOT EXISTS\<close>; a failure is logged and not raised.\<close>

definition init_db :: "env \<Rightarrow> state \<Rightarrow> state" where
  "init_db E s =
     (case get_connection E s of
        (Inl e, s1) \<Rightarrow> logmsg CRITICAL (DbInitFailed e) s1
      | (Inr _, s1) \<Rightarrow>
          if db_fails E OpCreateTable then logmsg CRITICAL (DbInitFailed SqliteError) s1
          else logmsg INFO DbInitialized s1)"

text \<open>\<^verbatim>\<open>DatabaseManager.__init__\<close>: no handle yet, then \<^verbatim>\<open>_init_db\<close>.\<close>

definition DatabaseManager_init :: "env \<Rightarrow> state \<Rightarrow> state" where
  "DatabaseManager_init E s = init_db E (s\<lparr>conn := False\<rparr>)"

text \<open>
  \<^verbatim>\<open>INSERT OR REPLACE\<close>: the row with the same primary key is deleted and the new row
  inserted.
\<close>

definition insert_or_replace ::
  "string \<Rightarrow> baseline_entry \<Rightarrow> (string \<times> baseline_entry) list \<Rightarrow> (string \<times> baseline_entry) list"
  where
  "insert_or_replace k v rs = filter (\<lambda>r. fst r \<noteq> k) rs @ [(k, v)]"

text \<open>
  \<^verbatim>\<open>save_baseline_entry\<close>: the handle, then \<^verbatim>\<open>time.time()\<close>, then the statement and
  the commit. Its \<^verbatim>\<open>except sqlite3.Error\<close> logs the failure and does not raise, so the
  call returns \<^verbatim>\<open>None\<close> either way. A statement that fails leaves the table as it was.
\<close>

definition save_baseline_entry ::
  "env \<Rightarrow> string \<Rightarrow> string \<Rightarrow> int \<Rightarrow> real \<Rightarrow> real \<Rightarrow> int \<Rightarrow> state \<Rightarrow> (exn + unit) \<times> state"
  where
  "save_baseline_entry E fp fh fs mt ct perms s =
     (case get_connection E s of
        (Inl e, s1) \<Rightarrow> (Inr (), logmsg ERROR (DbSaveFailed fp e) s1)
      | (Inr _, s1) \<Rightarrow>
          (let baseline_timestamp = time_time E (clock s1);
               s2 = s1\<lparr>clock := Suc (clock s1)\<rparr>
           in if db_fails E (OpSave fp)
              then (Inr (), logmsg ERROR (DbSaveFailed fp SqliteError) s2)
              else (Inr (), logmsg DEBUG (DbSaved fp)
                (s2\<lparr>rows := insert_or_replace fp
                   \<lparr>file_path = fp, file_size = fs, modification_time = mt,
                    creation_time = ct, permissions = perms, file_hash = fh,
                    baseline_timestamp = baseline_timestamp\<rparr> (rows s2)\<rparr>))))"

text \<open>\<^verbatim>\<open>get_baseline_entry\<close>: the row as a dictionary or \<^verbatim>\<open>None\<close>; a failure is raised.\<close>

definition get_baseline_entry ::
  "env \<Rightarrow> string \<Rightarrow> state \<Rightarrow> (exn + baseline_entry option) \<times> state" where
  "get_baseline_entry E fp s =
     (case get_connection E s of
        (Inl e, s1) \<Rightarrow> (Inl e, logmsg ERROR (DbRetrieveFailed fp e) s1)
      | (Inr _, s1) \<Rightarrow>
          if db_fails E (OpGet fp)
          then (Inl SqliteError, logmsg ERROR (DbRetrieveFailed fp SqliteError) s1)
          else (Inr (map_of (rows s1) fp), s1))"

text \<open>
  A Python set of strings is a duplicate-free list; the order in which Python
  iterates over a set is not specified, and no theorem below depends on the order
  chosen here.
\<close>

definition set_add :: "string \<Rightarrow> string list \<Rightarrow> string list" where
  "set_add x xs = (if x \<in> set xs then xs else xs @ [x])"

definition set_difference :: "string list \<Rightarrow> string list \<Rightarrow> string list" where
  "set_difference xs ys = filter (\<lambda>x. x \<notin> set ys) xs"

definition set_intersection :: "string list \<Rightarrow> string list \<Rightarrow> string list" where
  "set_intersection xs ys = filter (\<lambda>x. x \<in> set ys) xs"

definition get_all_baseline_paths :: "env \<Rightarrow> state \<Rightarrow> (exn + string list) \<times> state" where
  "get_all_baseline_paths E s =
     (case get_connection E s of
        (Inl e, s1) \<Rightarrow> (Inl e, logmsg ERROR (DbAllPathsFailed e) s1)
      | (Inr _, s1) \<Rightarrow>
          if db_fails E OpAllPaths
          then (Inl SqliteError, logmsg ERROR (DbAllPathsFailed SqliteError) s1)
          else (Inr (foldl (\<lambda>acc r. set_add (fst r) acc) [] (rows s1)), s1))"

definition remove_baseline_entry :: "env \<Rightarrow> string \<Rightarrow> state \<Rightarrow> (exn + unit) \<times> state" where
  "remove_baseline_entry E fp s =
     (case get_connection E s of
        (Inl e, s1) \<Rightarrow> (Inr (), logmsg ERROR (DbRemoveFailed fp e) s1)
      | (Inr _, s1) \<Rightarrow>
          if db_fails E (OpRemove fp)
          then (Inr (), logmsg ERROR (DbRemoveFailed fp SqliteError) s1)
          else (Inr (), logmsg DEBUG (DbRemoved fp)
                  (s1\<lparr>rows := filter (\<lambda>r. fst r \<noteq> fp) (rows s1)\<rparr>)))"

subsection \<open>monitor.py: metadata and baseline creation\<close>

text \<open>
  \<^verbatim>\<open>_get_file_metadata\<close>: \<^verbatim>\<open>None\<close> without a log record on \<^verbatim>\<open>FileNotFoundError\<close>,
  \<^verbatim>\<open>None\<close> with one on any other exception; the permission bits are
  \<^verbatim>\<open>st_mode & 0o777\<close>.
\<close>

definition get_file_metadata :: "env \<Rightarrow> string \<Rightarrow> state \<Rightarrow> metadata option \<times> state" where
  "get_file_metadata E fp s =
     (case os_stat E fp of
        Inr st \<Rightarrow>
          (Some \<lparr>file_path = fp, file_size = st_size st, modification_time = st_mtime st,
                 creation_time = st_ctime st, permissions = st_mode st AND 511\<rparr>, s)
      | Inl NotFound \<Rightarrow> (None, s)
      | Inl OtherOSError \<Rightarrow> (None, logmsg ERROR (MetadataFailed fp (os_exn OtherOSError)) s))"

text \<open>The file paths of one \<^verbatim>\<open>os.walk\<close>, in the order the two nested loops visit them.\<close>

definition walked_files :: "env \<Rightarrow> string \<Rightarrow> string list" where
  "walked_files E d =
     concat (map (\<lambda>(r, ds, fs). map (path_join r) fs) (walk E d))"

text \<open>
  The body of the inner loop of \<^verbatim>\<open>create_baseline\<close> for one file, on the pair of
  \<^verbatim>\<open>monitored_count\<close> and the state. The digest is computed before the metadata is
  read; \<^verbatim>\<open>if metadata and file_hash\<close> is false for \<^verbatim>\<open>None\<close> and for the empty string;
  \<^verbatim>\<open>except Exception\<close> logs what the \<^verbatim>\<open>try\<close> block raises and goes on to the next file.
\<close>

definition baseline_file ::
  "env \<Rightarrow> monitored_paths \<Rightarrow> nat \<times> state \<Rightarrow> string \<Rightarrow> nat \<times> state" where
  "baseline_file E M cs fp =
     (case cs of (monitored_count, s) \<Rightarrow>
        if is_path_monitored E M fp then
          (case calculate_file_hash E fp (HASH_ALGORITHM E) s of
             (Inl e, s1) \<Rightarrow> (monitored_count, logmsg ERROR (ProcessFailed fp e) s1)
           | (Inr fh, s1) \<Rightarrow>
               (case get_file_metadata E fp s1 of
                  (None, s2) \<Rightarrow> (monitored_count, s2)
                | (Some md, s2) \<Rightarrow>
                    if fh \<noteq> [] then
                      (case save_baseline_entry E fp fh (file_size md) (modification_time md)
                              (creation_time md) (permissions md) s2 of
                         (Inl e, s3) \<Rightarrow> (monitored_count, logmsg ERROR (ProcessFailed fp e) s3)
                       | (Inr _, s3) \<Rightarrow> (monitored_count + 1, s3))
                    else (monitored_count, s2)))
        else (monitored_count, s))"

definition baseline_include ::
  "env \<Rightarrow> monitored_paths \<Rightarrow> nat \<times> state \<Rightarrow> string \<Rightarrow> nat \<times> state" where
  "baseline_include E M cs include_path =
     (let abs_include_path = abspath E include_path in
      if \<not> path_exists E abs_include_path
      then (fst cs, logmsg WARNING (IncludeMissing abs_include_path) (snd cs))
      else foldl (baseline_file E M) cs (walked_files E abs_include_path))"

definition baseline_scan :: "env \<Rightarrow> monitored_paths \<Rightarrow> state \<Rightarrow> nat \<times> state" where
  "baseline_scan E M s =
     foldl (baseline_include E M) (0, logmsg INFO CreatingBaseline s) (include_list M)"

text \<open>
  \<^verbatim>\<open>create_baseline\<close> has no \<^verbatim>\<open>return\<close> statement: it returns \<^verbatim>\<open>None\<close>, and the final
  value of \<^verbatim>\<open>monitored_count\<close> goes into its last log record only.
\<close>

definition create_baseline :: "env \<Rightarrow> monitored_paths \<Rightarrow> state \<Rightarrow> (exn + unit) \<times> state" where
  "create_baseline E M s =
     (case baseline_scan E M s of
        (monitored_count, s1) \<Rightarrow> (Inr (), logmsg INFO (BaselineCreated monitored_count) s1))"

subsection \<open>monitor.py: the integrity check\<close>

datatype pyval = PyStr string | PyInt int | PyFloat real

type_synonym pydict = "(string \<times> pyval) list"

record changes =
  added :: "pydict list"
  modified :: "pydict list"
  deleted :: "pydict list"

text \<open>\<^verbatim>\<open>oct\<close> of a Python int.\<close>

fun oct_digits :: "nat \<Rightarrow> string" where
  "oct_digits n =
     (if n < 8 then [char_of (48 + n)]
      else oct_digits (n div 8) @ [char_of (48 + n mod 8)])"

declare oct_digits.simps [simp del]

definition oct :: "int \<Rightarrow> string" where
  "oct i = (if i < 0 then ''-0o'' @ oct_digits (nat (- i)) else ''0o'' @ oct_digits (nat i))"

text \<open>The first loop of \<^verbatim>\<open>check_integrity\<close>: the set of monitored paths now on disk.\<close>

definition collect_include ::
  "env \<Rightarrow> monitored_paths \<Rightarrow> string list \<Rightarrow> string \<Rightarrow> string list" where
  "collect_include E M current_paths include_path =
     (let abs_include_path = abspath E include_path in
      if \<not> path_exists E abs_include_path then current_paths
      else foldl (\<lambda>cur fp. if is_path_monitored E M fp then set_add fp cur else cur)
             current_paths (walked_files E abs_include_path))"

definition collect_current_paths :: "env \<Rightarrow> monitored_paths \<Rightarrow> string list" where
  "collect_current_paths E M = foldl (collect_include E M) [] (include_list M)"

definition report_added :: "changes \<times> state \<Rightarrow> string \<Rightarrow> changes \<times> state" where
  "report_added cs fp =
     (case cs of (c, s) \<Rightarrow>
        (c\<lparr>added := added c @
             [[(''file'', PyStr fp), (''reason'', PyStr ''New file not in baseline'')]]\<rparr>,
         logmsg INFO (AddedDetected fp) s))"

definition report_deleted :: "changes \<times> state \<Rightarrow> string \<Rightarrow> changes \<times> state" where
  "report_deleted cs fp =
     (case cs of (c, s) \<Rightarrow>
        (c\<lparr>deleted := deleted c @
             [[(''file'', PyStr fp),
               (''reason'', PyStr ''File deleted from monitored path'')]]\<rparr>,
         logmsg WARNING (DeletedDetected fp) s))"

text \<open>
  The \<^verbatim>\<open>try\<close> block of the third loop: the ordered comparison of one file's current
  metadata with its baseline entry. An exception of the digest computation is logged
  and the file left out.
\<close>

definition compare_entry ::
  "env \<Rightarrow> string \<Rightarrow> metadata \<Rightarrow> baseline_entry \<Rightarrow> changes \<times> state \<Rightarrow> changes \<times> state" where
  "compare_entry E fp current_metadata baseline_entry cs =
     (case cs of (c, s) \<Rightarrow>
        if file_size current_metadata \<noteq> file_size baseline_entry then
          (c\<lparr>modified := modified c @
               [[(''file'', PyStr fp), (''type'', PyStr ''size_mismatch''),
                 (''old_size'', PyInt (file_size baseline_entry)),
                 (''new_size'', PyInt (file_size current_metadata))]]\<rparr>,
           logmsg WARNING (SizeMismatch fp) s)
        else if modification_time current_metadata \<noteq> modification_time baseline_entry then
          (c\<lparr>modified := modified c @
               [[(''file'', PyStr fp), (''type'', PyStr ''mtime_mismatch''),
                 (''old_mtime'', PyFloat (modification_time baseline_entry)),
                 (''new_mtime'', PyFloat (modification_time current_metadata))]]\<rparr>,
           logmsg WARNING (MtimeMismatch fp) s)
        else if permissions current_metadata \<noteq> permissions baseline_entry then
          (c\<lparr>modified := modified c @
               [[(''file'', PyStr fp), (''type'', PyStr ''permissions_mismatch''),
                 (''old_perms'', PyStr (oct (permissions baseline_entry))),
                 (''new_perms'', PyStr (oct (permissions current_metadata)))]]\<rparr>,
           logmsg WARNING (PermissionsMismatch fp) s)
        else
          (case calculate_file_hash E fp (HASH_ALGORITHM E) s of
             (Inl e, s1) \<Rightarrow> (c, logmsg ERROR (CheckFailed fp e) s1)
           | (Inr current_hash, s1) \<Rightarrow>
               if current_hash \<noteq> file_hash baseline_entry then
                 (c\<lparr>modified := modified c @
                      [[(''file'', PyStr fp), (''type'', PyStr ''hash_mismatch''),
                        (''old_hash'', PyStr (file_hash baseline_entry)),
                        (''new_hash'', PyStr current_hash)]]\<rparr>,
                  logmsg WARNING (HashMismatch fp) s1)
               else (c, s1)))"

text \<open>
  The body of the third loop for one path. An exception of \<^verbatim>\<open>get_baseline_entry\<close>
  is outside the \<^verbatim>\<open>try\<close> block and leaves \<^verbatim>\<open>check_integrity\<close>.
\<close>

definition check_path :: "env \<Rightarrow> string \<Rightarrow> changes \<times> state \<Rightarrow> (exn + changes) \<times> state" where
  "check_path E fp cs =
     (case cs of (c, s) \<Rightarrow>
        (case get_file_metadata E fp s of
           (None, s1) \<Rightarrow> (Inr c, s1)
         | (Some current_metadata, s1) \<Rightarrow>
             (case get_baseline_entry E fp s1 of
                (Inl e, s2) \<Rightarrow> (Inl e, s2)
              | (Inr None, s2) \<Rightarrow>
                  (Inr (c\<lparr>added := added c @
                          [[(''file'', PyStr fp),
                            (''reason'', PyStr ''File exists but is not in baseline'')]]\<rparr>),
                   logmsg INFO (AddedEdgeCase fp) s2)
              | (Inr (Some baseline_entry), s2) \<Rightarrow>
                  (case compare_entry E fp current_metadata baseline_entry (c, s2) of
                     (c', s3) \<Rightarrow> (Inr c', s3)))))"

fun check_paths :: "env \<Rightarrow> string list \<Rightarrow> changes \<times> state \<Rightarrow> (exn + changes) \<times> state" where
  "check_paths E [] cs = (Inr (fst cs), snd cs)"
| "check_paths E (fp # fps) cs =
     (case check_path E fp cs of
        (Inl e, s') \<Rightarrow> (Inl e, s')
      | (Inr c', s') \<Rightarrow> check_paths E fps (c', s'))"

definition check_integrity ::
  "env \<Rightarrow> monitored_paths \<Rightarrow> state \<Rightarrow> (exn + changes) \<times> state" where
  "check_integrity E M s =
     (case get_all_baseline_paths E (logmsg INFO CheckingIntegrity s) of
        (Inl e, s1) \<Rightarrow> (Inl e, s1)
      | (Inr baseline_paths, s1) \<Rightarrow>
          (let current_paths = collect_current_paths E M;
               added_files = set_difference current_paths baseline_paths;
               deleted_files = set_difference baseline_paths current_paths;
               cs1 = foldl report_added (\<lparr>added = [], modified = [], deleted = []\<rparr>, s1)
                       added_files;
               cs2 = foldl report_deleted cs1 deleted_files
           in case check_paths E (set_intersection baseline_paths current_paths) cs2 of
                (Inl e, s2) \<Rightarrow> (Inl e, s2)
              | (Inr c, s2) \<Rightarrow> (Inr c, logmsg INFO CheckComplete s2)))"

subsection \<open>A sample tree\<close>

text \<open>
  A directory \<^verbatim>\<open>/data\<close> with the files \<^verbatim>\<open>a.txt\<close> and \<^verbatim>\<open>tmp/b.txt\<close>, and a file
  \<^verbatim>\<open>/var/log2/x\<close>; every path is already absolute and normal, so \<^verbatim>\<open>abspath\<close> changes
  nothing. The digest is a stand-in that keeps the algorithm's name and the content.
\<close>

definition sample_stat :: "string \<Rightarrow> os_error + stat_result" where
  "sample_stat p =
     (if p = ''/data/a.txt''
        then Inr \<lparr>st_size = 5, st_mtime = 1700000000, st_ctime = 1700000000, st_mode = 33188\<rparr>
      else if p = ''/data/tmp/b.txt''
        then Inr \<lparr>st_size = 2, st_mtime = 1700000100, st_ctime = 1700000100, st_mode = 33152\<rparr>
      else if p = ''/var/log2/x''
        then Inr \<lparr>st_size = 0, st_mtime = 1700000200, st_ctime = 1700000200, st_mode = 33188\<rparr>
      else Inl NotFound)"

definition sample_open :: "string \<Rightarrow> os_error + bytes" where
  "sample_open p =
     (if p = ''/data/a.txt'' then Inr ''hello''
      else if p = ''/data/tmp/b.txt'' then Inr ''hi''
      else if p = ''/var/log2/x'' then Inr []
      else Inl NotFound)"

definition sample_walk :: "string \<Rightarrow> (string \<times> string list \<times> string list) list" where
  "sample_walk d =
     (if d = ''/data'' then [(''/data'', [''tmp''], [''a.txt'']), (''/data/tmp'', [], [''b.txt''])]
      else if d = ''/data/tmp'' then [(''/data/tmp'', [], [''b.txt''])]
      else if d = ''/var/log2'' then [(''/var/log2'', [], [''x''])]
      else [])"

definition sample_env :: env where
  "sample_env =
     \<lparr>abspath = (\<lambda>p. p),
      path_exists = (\<lambda>p. p \<in> set [''/data'', ''/data/a.txt'', ''/data/tmp'',
        ''/data/tmp/b.txt'', ''/var/log2'', ''/var/log2/x'']),
      walk = sample_walk,
      os_stat = sample_stat,
      open_rb = sample_open,
      algorithms_available = [''md5'', ''sha1'', ''sha256'', ''sha512''],
      digest_hex = (\<lambda>a bs. a @ '':'' @ bs),
      HASH_ALGORITHM = ''sha256'',
      time_time = (\<lambda>n. 1700001000 + real n),
      db_fails = (\<lambda>_. False)\<rparr>"

definition empty_state :: state where
  "empty_state = \<lparr>conn = False, rows = [], clock = 0, logged = []\<rparr>"

text \<open>
  A configuration that monitors \<^verbatim>\<open>/data\<close>, one that leaves \<^verbatim>\<open>/data/tmp\<close> out, and a
  store written some time ago: \<^verbatim>\<open>a.txt\<close> had four bytes then, and \<^verbatim>\<open>old.txt\<close> is no
  longer on disk.
\<close>

definition sample_paths :: monitored_paths where
  "sample_paths = \<lparr>include_list = [''/data''], exclude_list = []\<rparr>"

definition sample_paths_excluding :: monitored_paths where
  "sample_paths_excluding = \<lparr>include_list = [''/data''], exclude_list = [''/data/tmp'']\<rparr>"

definition sample_state :: state where
  "sample_state =
     \<lparr>conn = False,
      rows = [(''/data/a.txt'',
                \<lparr>file_path = ''/data/a.txt'', file_size = 4, modification_time = 1690000000,
                 creation_time = 1690000000, permissions = 420, file_hash = ''sha256:hell'',
                 baseline_timestamp = 1690000500\<rparr>),
              (''/data/old.txt'',
                \<lparr>file_path = ''/data/old.txt'', file_size = 1, modification_time = 1690000000,
                 creation_time = 1690000000, permissions = 420, file_hash = ''sha256:x'',
                 baseline_timestamp = 1690000501\<rparr>)],
      clock = 2,
      logged = []\<rparr>"

text \<open>
  A store whose row for \<^verbatim>\<open>a.txt\<close> has the size, modification time and permission
  bits the file has now, and the digest of other content of the same length.
\<close>

definition sample_state_same_metadata :: state where
  "sample_state_same_metadata =
     \<lparr>conn = False,
      rows = [(''/data/a.txt'',
                \<lparr>file_path = ''/data/a.txt'', file_size = 5, modification_time = 1700000000,
                 creation_time = 1700000000, permissions = 420, file_hash = ''sha256:jello'',
                 baseline_timestamp = 1700000500\<rparr>)],
      clock = 1,
      logged = []\<rparr>"




subsection \<open>Notions used in the statements and proofs\<close>

text \<open>
  The path a log record of \<^verbatim>\<open>calculate_file_hash\<close> is about; the log records added
  between two states; \<open>reads_only P s s'\<close>: from \<open>s\<close> to \<open>s'\<close> the table and the clock
  are the same, an open handle stays open, and the log has grown by records that
  satisfy \<open>P\<close>. What \<^verbatim>\<open>compare_entry\<close> appends to \<^verbatim>\<open>changes['modified']\<close> is
  \<open>mismatch\<close>; \<open>path_mismatch\<close> is the same from a path and a table, and
  \<open>unchanged_metadata\<close> says that size, modification time and permission bits on disk
  are those of the stored row.
\<close>

fun hasher_event :: "event \<Rightarrow> string option" where
  "hasher_event (HashingFile p a) = Some p"
| "hasher_event (HashGenerated p h) = Some p"
| "hasher_event (HashFileNotFound p) = Some p"
| "hasher_event (HashFailed p e) = Some p"
| "hasher_event _ = None"

definition new_records :: "state \<Rightarrow> state \<Rightarrow> (level \<times> event) list" where
  "new_records s s' = drop (length (logged s)) (logged s')"

definition reads_only :: "(event \<Rightarrow> bool) \<Rightarrow> state \<Rightarrow> state \<Rightarrow> bool" where
  "reads_only P s s' \<longleftrightarrow>
     rows s' = rows s \<and> clock s' = clock s \<and> (conn s \<longrightarrow> conn s') \<and>
     prefix (logged s) (logged s') \<and> list_all (\<lambda>x. P (snd x)) (new_records s s')"

definition mismatch :: "env \<Rightarrow> string \<Rightarrow> metadata \<Rightarrow> baseline_entry \<Rightarrow> pydict list" where
  "mismatch E fp md be =
     modified (fst (compare_entry E fp md be (\<lparr>added = [], modified = [], deleted = []\<rparr>,
       empty_state)))"

definition path_mismatch ::
  "env \<Rightarrow> (string \<times> baseline_entry) list \<Rightarrow> string \<Rightarrow> pydict list" where
  "path_mismatch E rs fp =
     (case fst (get_file_metadata E fp empty_state) of
        None \<Rightarrow> []
      | Some md \<Rightarrow> (case map_of rs fp of None \<Rightarrow> [] | Some be \<Rightarrow> mismatch E fp md be))"

definition unchanged_metadata ::
  "env \<Rightarrow> (string \<times> baseline_entry) list \<Rightarrow> string \<Rightarrow> bool" where
  "unchanged_metadata E rs fp =
     (case fst (get_file_metadata E fp empty_state) of
        None \<Rightarrow> False
      | Some md \<Rightarrow>
          (case map_of rs fp of
             None \<Rightarrow> False
           | Some be \<Rightarrow> file_size md = file_size be
               \<and> modification_time md = modification_time be
               \<and> permissions md = permissions be))"

text \<open>
  For baseline creation: the files the two nested loops of \<^verbatim>\<open>create_baseline\<close> visit
  for a list of include entries, in order and with repetitions; those of them the path
  matcher accepts; \<open>baselinable\<close>: the digest of the file can be computed and is not
  empty, and its metadata can be read; \<open>on_disk\<close>: the table has a row for the path
  whose digest, size, modification time and permission bits are the file's current
  ones. \<open>scan_rel E M xs cs cs'\<close> relates the count and state before and after the
  loop body has run over the files \<open>xs\<close>.
\<close>

definition visited_files :: "env \<Rightarrow> string list \<Rightarrow> string list" where
  "visited_files E ips =
     concat (map (\<lambda>ip. if path_exists E (abspath E ip) then walked_files E (abspath E ip)
                         else []) ips)"


definition baselinable :: "env \<Rightarrow> string \<Rightarrow> bool" where
  "baselinable E fp =
     (case fst (calculate_file_hash E fp (HASH_ALGORITHM E) empty_state) of
        Inl e \<Rightarrow> False
      | Inr h \<Rightarrow> h \<noteq> [] \<and> fst (get_file_metadata E fp empty_state) \<noteq> None)"

definition on_disk :: "env \<Rightarrow> (string \<times> baseline_entry) list \<Rightarrow> string \<Rightarrow> bool" where
  "on_disk E rs fp =
     (case fst (calculate_file_hash E fp (HASH_ALGORITHM E) empty_state) of
        Inl e \<Rightarrow> False
      | Inr h \<Rightarrow>
          (case fst (get_file_metadata E fp empty_state) of
             None \<Rightarrow> False
           | Some md \<Rightarrow>
               (case map_of rs fp of
                  None \<Rightarrow> False
                | Some be \<Rightarrow> file_hash be = h \<and> file_size be = file_size md
                    \<and> modification_time be = modification_time md
                    \<and> permissions be = permissions md)))"

definition scan_rel ::
  "env \<Rightarrow> monitored_paths \<Rightarrow> string list \<Rightarrow> nat \<times> state \<Rightarrow> nat \<times> state \<Rightarrow> bool" where
  "scan_rel E M xs cs cs' \<longleftrightarrow>
     fst cs' = fst cs + length (filter (\<lambda>fp. is_path_monitored E M fp \<and> baselinable E fp) xs)
     \<and> (conn (snd cs) \<longrightarrow> conn (snd cs'))
     \<and> (\<forall>p. map_of (rows (snd cs')) p = map_of (rows (snd cs)) p
            \<or> p \<in> set xs \<and> is_path_monitored E M p \<and> baselinable E p
                \<and> on_disk E (rows (snd cs')) p)
     \<and> ((conn (snd cs) \<or> \<not> db_fails E OpConnect) \<and> (\<forall>fp \<in> set xs. \<not> db_fails E (OpSave fp))
          \<longrightarrow> (\<forall>p \<in> set xs. is_path_monitored E M p \<and> baselinable E p
                 \<longrightarrow> on_disk E (rows (snd cs')) p))
     \<and> set (logged (snd cs)) \<subseteq> set (logged (snd cs'))
     \<and> (\<forall>fp \<in> set xs. \<forall>e. is_path_monitored E M fp
            \<and> fst (calculate_file_hash E fp (HASH_ALGORITHM E) empty_state) = Inl e
          \<longrightarrow> (ERROR, ProcessFailed fp e) \<in> set (logged (snd cs')))"

section \<open>The path matcher\<close>

lemma any_startswith_iff:
  "any_startswith E fp qs \<longleftrightarrow> (\<exists>q \<in> set qs. prefix (abspath E q) fp)"
  by (induction qs) auto

text \<open>
  Claim C5. For every path \<open>p\<close> and every pair of include and exclude lists,
  \<^verbatim>\<open>_is_path_monitored\<close> answers false as soon as the absolute path of some exclude
  entry is a prefix of \<open>p\<close>, whatever the include list holds; otherwise it answers true
  exactly when the absolute path of some include entry is a prefix of \<open>p\<close>. With both
  lists empty it answers false for every path. The test is a plain string prefix with
  no look at separators: with no excludes, any string at all appended to the absolute
  path of an include entry is monitored (so an include of \<^verbatim>\<open>/var/log\<close> takes in
  \<^verbatim>\<open>/var/log2/x\<close>, as the witness shows).
\<close>

theorem is_path_monitored_exclude_first:
  "(is_path_monitored E M p \<longleftrightarrow>
      \<not> (\<exists>e \<in> set (exclude_list M). prefix (abspath E e) p) \<and>
      (\<exists>i \<in> set (include_list M). prefix (abspath E i) p))
   \<and> (include_list M = [] \<and> exclude_list M = [] \<longrightarrow> \<not> is_path_monitored E M p)
   \<and> (i \<in> set (include_list M) \<and> exclude_list M = []
        \<longrightarrow> is_path_monitored E M (abspath E i @ t))"
  by (auto simp: is_path_monitored_def any_startswith_iff)

theorem is_path_monitored_witness:
  "is_path_monitored sample_env \<lparr>include_list = [''/var/log''], exclude_list = []\<rparr>
     ''/var/log2/x''
   \<and> \<not> is_path_monitored sample_env
        \<lparr>include_list = [''/var/log''], exclude_list = [''/var/log2'']\<rparr> ''/var/log2/x''
   \<and> \<not> is_path_monitored sample_env \<lparr>include_list = [], exclude_list = []\<rparr>
        ''/var/log2/x''"
  using is_path_monitored_exclude_first
    [of sample_env "\<lparr>include_list = [''/var/log''], exclude_list = []\<rparr>" "''/var/log2/x''"
      "''/var/log''" "''2/x''"]
    is_path_monitored_exclude_first
    [of sample_env "\<lparr>include_list = [''/var/log''], exclude_list = [''/var/log2'']\<rparr>"
      "''/var/log2/x''"]
    is_path_monitored_exclude_first
    [of sample_env "\<lparr>include_list = [], exclude_list = []\<rparr>" "''/var/log2/x''"]
  by (simp add: sample_env_def)

section \<open>The fingerprinter\<close>

lemma concat_read_chunks: "concat (read_chunks bs) = bs"
proof (induction bs rule: read_chunks.induct)
  case (1 bs)
  show ?case
  proof (cases "bs = []")
    case True
    then show ?thesis by (simp add: read_chunks.simps)
  next
    case False
    with "1" show ?thesis by (subst read_chunks.simps) simp
  qed
qed

lemma foldl_update: "foldl update h cs = h\<lparr>h_data := h_data h @ concat cs\<rparr>"
  by (induction cs arbitrary: h) (simp_all add: update_def)

lemma hexdigest_chunks:
  "hexdigest E (foldl update (hashlib_new a) (read_chunks bs)) = digest_hex E a bs"
  by (simp add: foldl_update concat_read_chunks hexdigest_def hashlib_new_def)

text \<open>What \<^verbatim>\<open>calculate_file_hash\<close> returns or raises does not depend on the state.\<close>

lemma calculate_file_hash_result:
  "fst (calculate_file_hash E p a s) =
     (if \<not> path_exists E p then Inl FileNotFoundError
      else if lower a \<notin> set (algorithms_available E) then Inl ValueError
      else case open_rb E p of
             Inl e \<Rightarrow> Inl (os_exn e)
           | Inr bs \<Rightarrow> Inr (digest_hex E (lower a) bs))"
  by (auto simp: calculate_file_hash_def Let_def hexdigest_chunks
      split: sum.splits os_error.splits)

lemma lower_SHA256: "lower ''SHA256'' = ''sha256''"
  by code_simp

lemma lower_sha256: "lower ''sha256'' = ''sha256''"
  by code_simp

lemma lower_crc32: "lower ''crc32'' = ''crc32''"
  by code_simp

text \<open>
  Claim C6, as amended. \<^verbatim>\<open>calculate_file_hash\<close> raises \<^verbatim>\<open>FileNotFoundError\<close> whenever
  the path does not exist, whatever the algorithm name. On a path that exists it
  raises \<^verbatim>\<open>ValueError\<close> exactly when the lower-cased algorithm name is not in
  \<^verbatim>\<open>hashlib.algorithms_available\<close>. Where that set holds \<^verbatim>\<open>sha256\<close>, \<^verbatim>\<open>sha512\<close> and
  \<^verbatim>\<open>md5\<close>, every spelling of these names in upper or lower case is accepted, and on a
  file that exists and can be read the call returns the digest of its content under
  the lower-cased name.
\<close>

theorem calculate_file_hash_errors:
  "(\<not> path_exists E p \<longrightarrow> fst (calculate_file_hash E p a s) = Inl FileNotFoundError)
   \<and> (path_exists E p \<longrightarrow>
        (fst (calculate_file_hash E p a s) = Inl ValueError
           \<longleftrightarrow> lower a \<notin> set (algorithms_available E)))
   \<and> (path_exists E p \<and> lower a \<in> {''sha256'', ''sha512'', ''md5''}
        \<and> {''sha256'', ''sha512'', ''md5''} \<subseteq> set (algorithms_available E)
        \<and> open_rb E p = Inr bs
        \<longrightarrow> fst (calculate_file_hash E p a s) = Inr (digest_hex E (lower a) bs))"
  by (cases "open_rb E p"; cases "projl (open_rb E p)";
      auto simp: calculate_file_hash_result split: sum.splits os_error.splits)

theorem calculate_file_hash_witness:
  "fst (calculate_file_hash sample_env ''/data/a.txt'' ''SHA256'' empty_state)
     = Inr ''sha256:hello''
   \<and> fst (calculate_file_hash sample_env ''/data/a.txt'' ''sha256'' empty_state)
     = Inr ''sha256:hello''
   \<and> fst (calculate_file_hash sample_env ''/data/a.txt'' ''crc32'' empty_state)
     = Inl ValueError
   \<and> fst (calculate_file_hash sample_env ''/data/none'' ''sha256'' empty_state)
     = Inl FileNotFoundError"
  using
    calculate_file_hash_errors
      [of sample_env "''/data/a.txt''" "''SHA256''" empty_state "''hello''"]
    calculate_file_hash_errors
      [of sample_env "''/data/a.txt''" "''sha256''" empty_state "''hello''"]
    calculate_file_hash_errors
      [of sample_env "''/data/a.txt''" "''crc32''" empty_state "''hello''"]
    calculate_file_hash_errors
      [of sample_env "''/data/none''" "''sha256''" empty_state "''hello''"]
  by (simp add: sample_env_def sample_open_def lower_SHA256 lower_sha256 lower_crc32)

text \<open>
  The claim as first stated has \<^verbatim>\<open>ValueError\<close> raised exactly when the name is
  unsupported, for every path: on a path that does not exist an unsupported name
  raises \<^verbatim>\<open>FileNotFoundError\<close>, since the existence check comes first.
\<close>

theorem calculate_file_hash_counterexample:
  "lower ''crc32'' \<notin> set (algorithms_available sample_env)
   \<and> fst (calculate_file_hash sample_env ''/data/none'' ''crc32'' empty_state)
       \<noteq> Inl ValueError
   \<and> fst (calculate_file_hash sample_env ''/data/none'' ''crc32'' empty_state)
       = Inl FileNotFoundError"
  by (simp add: calculate_file_hash_result sample_env_def lower_crc32)

section \<open>The baseline store\<close>

lemma get_connection_cases:
  "get_connection E s = (r, s') \<Longrightarrow>
     (r = Inr () \<and> conn s' \<and> (conn s \<or> \<not> db_fails E OpConnect)
        \<or> r = Inl SqliteError \<and> \<not> conn s' \<and> \<not> conn s \<and> db_fails E OpConnect)
     \<and> rows s' = rows s \<and> clock s' = clock s"
  by (auto simp: get_connection_def logmsg_def split: if_splits)

lemma map_of_insert_or_replace:
  "map_of (insert_or_replace k v rs) = (map_of rs)(k \<mapsto> v)"
proof -
  have "map_of (filter (\<lambda>r. fst r \<noteq> k) rs) q = (if q = k then None else map_of rs q)" for q
    by (induction rs) auto
  then show ?thesis
    by (auto simp: insert_or_replace_def map_add_def fun_eq_iff split: option.splits)
qed

lemma keys_insert_or_replace:
  "fst ` set (insert_or_replace k v rs) = insert k (fst ` set rs)"
  by (auto simp: insert_or_replace_def image_iff)

lemma distinct_insert_or_replace:
  "distinct (map fst rs) \<Longrightarrow> distinct (map fst (insert_or_replace k v rs))"
  by (auto simp: insert_or_replace_def distinct_map_filter)



lemma save_baseline_entry_cases:
  assumes "save_baseline_entry E fp fh fs mt ct perms s = (r, s')"
  shows "r = Inr () \<and>
    (if (\<not> conn s \<and> db_fails E OpConnect) \<or> db_fails E (OpSave fp)
     then rows s' = rows s
       \<and> logged s' = logged (snd (get_connection E s)) @ [(ERROR, DbSaveFailed fp SqliteError)]
     else rows s' = insert_or_replace fp
            \<lparr>file_path = fp, file_size = fs, modification_time = mt, creation_time = ct,
             permissions = perms, file_hash = fh,
             baseline_timestamp = time_time E (clock s)\<rparr> (rows s)
       \<and> clock s' = Suc (clock s) \<and> conn s'
       \<and> logged s' = logged (snd (get_connection E s)) @ [(DEBUG, DbSaved fp)])"
  using assms
  by (auto simp: save_baseline_entry_def get_connection_def logmsg_def Let_def
      split: if_splits)




section \<open>Effects of the integrity check\<close>

lemma reads_only_refl [simp]: "reads_only P s s"
  by (simp add: reads_only_def new_records_def)

lemma reads_only_trans:
  assumes "reads_only P s s1" and "reads_only P s1 s2"
  shows "reads_only P s s2"
proof -
  from assms obtain L1 L2 where L: "logged s1 = logged s @ L1" "logged s2 = logged s1 @ L2"
    by (auto simp: reads_only_def prefix_def)
  with assms show ?thesis
    by (auto simp: reads_only_def new_records_def)
qed

lemma reads_only_mono:
  "reads_only P s s' \<Longrightarrow> (\<And>e. P e \<Longrightarrow> Q e) \<Longrightarrow> reads_only Q s s'"
  by (auto simp: reads_only_def list_all_iff)

lemma reads_only_logmsg: "P e \<Longrightarrow> reads_only P s (logmsg l e s)"
  by (simp add: reads_only_def new_records_def logmsg_def)

lemma reads_only_logmsg_after:
  "reads_only P s s1 \<Longrightarrow> P e \<Longrightarrow> reads_only P s (logmsg l e s1)"
  by (erule reads_only_trans) (rule reads_only_logmsg)

lemma reads_only_rows: "reads_only P s s' \<Longrightarrow> rows s' = rows s"
  by (simp add: reads_only_def)

lemma reads_only_conn: "reads_only P s s' \<Longrightarrow> conn s \<Longrightarrow> conn s'"
  by (simp add: reads_only_def)

lemma calculate_file_hash_reads:
  "reads_only (\<lambda>e. hasher_event e = Some fp) s (snd (calculate_file_hash E fp a s))"
  by (auto simp: calculate_file_hash_def Let_def reads_only_logmsg reads_only_logmsg_after
      split: sum.splits os_error.splits)

lemma get_file_metadata_reads:
  "reads_only (\<lambda>e. hasher_event e = None) s (snd (get_file_metadata E fp s))"
  by (auto simp: get_file_metadata_def reads_only_logmsg split: sum.splits os_error.splits)

lemma get_file_metadata_result:
  "fst (get_file_metadata E fp s) =
     (case os_stat E fp of
        Inr st \<Rightarrow> Some \<lparr>file_path = fp, file_size = st_size st,
                         modification_time = st_mtime st, creation_time = st_ctime st,
                         permissions = st_mode st AND 511\<rparr>
      | Inl e \<Rightarrow> None)"
  by (auto simp: get_file_metadata_def split: sum.splits os_error.splits)

lemma get_connection_reads:
  "reads_only (\<lambda>e. hasher_event e = None) s (snd (get_connection E s))"
  by (auto simp: get_connection_def reads_only_logmsg reads_only_def new_records_def logmsg_def)

lemma get_connection_result:
  "fst (get_connection E s) = (if conn s \<or> \<not> db_fails E OpConnect then Inr () else Inl SqliteError)"
  "conn (snd (get_connection E s)) \<longleftrightarrow> conn s \<or> \<not> db_fails E OpConnect"
  by (auto simp: get_connection_def logmsg_def)

lemma get_baseline_entry_reads:
  "reads_only (\<lambda>e. hasher_event e = None) s (snd (get_baseline_entry E fp s))"
  using get_connection_reads [of s E]
  by (auto simp: get_baseline_entry_def reads_only_logmsg_after split: prod.splits sum.splits)

lemma get_baseline_entry_result:
  "fst (get_baseline_entry E fp s) =
     (if (conn s \<or> \<not> db_fails E OpConnect) \<and> \<not> db_fails E (OpGet fp)
      then Inr (map_of (rows s) fp) else Inl SqliteError)"
  using get_connection_cases [of E s]
  by (auto simp: get_baseline_entry_def split: prod.splits sum.splits)

lemma get_baseline_entry_conn:
  "fst (get_baseline_entry E fp s) = Inr x \<Longrightarrow> conn (snd (get_baseline_entry E fp s))"
  using get_connection_cases [of E s]
  by (auto simp: get_baseline_entry_def split: prod.splits sum.splits if_splits)

lemma mismatch_eq:
  "mismatch E fp md be =
     (if file_size md \<noteq> file_size be then
        [[(''file'', PyStr fp), (''type'', PyStr ''size_mismatch''),
          (''old_size'', PyInt (file_size be)), (''new_size'', PyInt (file_size md))]]
      else if modification_time md \<noteq> modification_time be then
        [[(''file'', PyStr fp), (''type'', PyStr ''mtime_mismatch''),
          (''old_mtime'', PyFloat (modification_time be)),
          (''new_mtime'', PyFloat (modification_time md))]]
      else if permissions md \<noteq> permissions be then
        [[(''file'', PyStr fp), (''type'', PyStr ''permissions_mismatch''),
          (''old_perms'', PyStr (oct (permissions be))),
          (''new_perms'', PyStr (oct (permissions md)))]]
      else (case fst (calculate_file_hash E fp (HASH_ALGORITHM E) empty_state) of
              Inl e \<Rightarrow> []
            | Inr h \<Rightarrow>
                if h \<noteq> file_hash be then
                  [[(''file'', PyStr fp), (''type'', PyStr ''hash_mismatch''),
                    (''old_hash'', PyStr (file_hash be)), (''new_hash'', PyStr h)]]
                else []))"
  by (auto simp: mismatch_def compare_entry_def split: prod.splits sum.splits)

lemma calculate_file_hash_state_indep:
  "fst (calculate_file_hash E p a s) = fst (calculate_file_hash E p a s0)"
  by (simp add: calculate_file_hash_result)

lemma compare_entry_effect:
  assumes "compare_entry E fp md be (c, s) = (c', s')"
  shows "c' = c\<lparr>modified := modified c @ mismatch E fp md be\<rparr>"
    and "reads_only (\<lambda>e. hasher_event e = None \<or> hasher_event e = Some fp) s s'"
    and "file_size md \<noteq> file_size be \<or> modification_time md \<noteq> modification_time be
           \<or> permissions md \<noteq> permissions be
         \<Longrightarrow> reads_only (\<lambda>e. hasher_event e = None) s s'"
proof -
  have h: "reads_only (\<lambda>e. hasher_event e = None \<or> hasher_event e = Some fp) s
             (snd (calculate_file_hash E fp (HASH_ALGORITHM E) s))"
    by (rule reads_only_mono [OF calculate_file_hash_reads]) simp
  show "c' = c\<lparr>modified := modified c @ mismatch E fp md be\<rparr>"
    using assms calculate_file_hash_state_indep [of E fp "HASH_ALGORITHM E" s empty_state]
    by (auto simp: mismatch_eq compare_entry_def split: prod.splits sum.splits if_splits)
  show "reads_only (\<lambda>e. hasher_event e = None \<or> hasher_event e = Some fp) s s'"
    using assms h
    by (auto simp: compare_entry_def reads_only_logmsg reads_only_logmsg_after
        split: prod.splits sum.splits if_splits)
  show "reads_only (\<lambda>e. hasher_event e = None) s s'"
    if "file_size md \<noteq> file_size be \<or> modification_time md \<noteq> modification_time be
           \<or> permissions md \<noteq> permissions be"
    using assms that
    by (auto simp: compare_entry_def reads_only_logmsg split: if_splits)
qed

lemma get_file_metadata_state_indep:
  "fst (get_file_metadata E fp s) = fst (get_file_metadata E fp s0)"
  by (simp add: get_file_metadata_result)

lemma check_path_effect:
  assumes "check_path E fp (c, s) = (r, s')"
  shows "reads_only (\<lambda>e. hasher_event e = None
            \<or> hasher_event e = Some fp \<and> unchanged_metadata E (rows s) fp) s s'"
    and "map_of (rows s) fp \<noteq> None \<Longrightarrow> r = Inr c'
           \<Longrightarrow> c' = c\<lparr>modified := modified c @ path_mismatch E (rows s) fp\<rparr>"
    and "(conn s \<or> \<not> db_fails E OpConnect) \<and> \<not> db_fails E (OpGet fp) \<Longrightarrow> \<exists>c'. r = Inr c'"
proof -
  obtain m s1 where m: "get_file_metadata E fp s = (m, s1)"
    by (cases "get_file_metadata E fp s")
  have m0: "fst (get_file_metadata E fp empty_state) = m"
    using m get_file_metadata_state_indep [of E fp empty_state s] by simp
  have r1: "reads_only (\<lambda>e. hasher_event e = None) s s1"
    using get_file_metadata_reads [of s E fp] m by simp
  obtain g s2 where g: "get_baseline_entry E fp s1 = (g, s2)"
    by (cases "get_baseline_entry E fp s1")
  have r2: "reads_only (\<lambda>e. hasher_event e = None) s1 s2"
    using get_baseline_entry_reads [of s1 E fp] g by simp
  have r12: "reads_only (\<lambda>e. hasher_event e = None) s s2"
    by (rule reads_only_trans [OF r1 r2])
  have gr: "g = (if (conn s1 \<or> \<not> db_fails E OpConnect) \<and> \<not> db_fails E (OpGet fp)
      then Inr (map_of (rows s) fp) else Inl SqliteError)"
    using get_baseline_entry_result [of E fp s1] g reads_only_rows [OF r1] by simp
  let ?P = "\<lambda>e. hasher_event e = None
            \<or> hasher_event e = Some fp \<and> unchanged_metadata E (rows s) fp"
  have w1: "reads_only ?P s s1" by (rule reads_only_mono [OF r1]) simp
  have w12: "reads_only ?P s s2" by (rule reads_only_mono [OF r12]) simp
  show "reads_only ?P s s'"
  proof (cases m)
    case None
    with assms m w1 show ?thesis by (simp add: check_path_def)
  next
    case (Some md)
    show ?thesis
    proof (cases g)
      case (Inl e)
      with assms m g Some w12 show ?thesis by (simp add: check_path_def)
    next
      case (Inr o')
      show ?thesis
      proof (cases o')
        case None
        with assms m g Some Inr w12 show ?thesis
          by (auto simp: check_path_def reads_only_logmsg_after)
      next
        case (Some be)
        obtain c3 s3 where c3: "compare_entry E fp md be (c, s2) = (c3, s3)"
          by (cases "compare_entry E fp md be (c, s2)")
        have be: "map_of (rows s) fp = Some be"
          using gr Inr Some by (simp split: if_splits)
        have "reads_only ?P s2 s3"
        proof (cases "unchanged_metadata E (rows s) fp")
          case True
          then show ?thesis
            by (auto intro: reads_only_mono [OF compare_entry_effect(2) [OF c3]])
        next
          case False
          then have "file_size md \<noteq> file_size be
              \<or> modification_time md \<noteq> modification_time be
              \<or> permissions md \<noteq> permissions be"
            using m0 \<open>m = Some md\<close> be by (auto simp: unchanged_metadata_def)
          from compare_entry_effect(3) [OF c3 this] show ?thesis
            by (rule reads_only_mono) simp
        qed
        then have "reads_only ?P s s3" by (rule reads_only_trans [OF w12])
        moreover have "s' = s3"
          using assms m g \<open>m = Some md\<close> Inr Some c3 by (simp add: check_path_def)
        ultimately show ?thesis by simp
      qed
    qed
  qed
  show "c' = c\<lparr>modified := modified c @ path_mismatch E (rows s) fp\<rparr>"
    if "map_of (rows s) fp \<noteq> None" and "r = Inr c'"
  proof (cases m)
    case None
    with assms m that m0 show ?thesis by (simp add: check_path_def path_mismatch_def)
  next
    case (Some md)
    from that obtain be where be: "map_of (rows s) fp = Some be" by auto
    have g': "g = Inr (Some be)"
      using assms m g Some that gr be by (auto simp: check_path_def split: if_splits)
    obtain c3 s3 where c3: "compare_entry E fp md be (c, s2) = (c3, s3)"
      by (cases "compare_entry E fp md be (c, s2)")
    have "c' = c3" using assms m g Some g' c3 that by (simp add: check_path_def)
    with compare_entry_effect(1) [OF c3] m0 Some be show ?thesis
      by (simp add: path_mismatch_def)
  qed
  show "\<exists>c'. r = Inr c'" if "(conn s \<or> \<not> db_fails E OpConnect) \<and> \<not> db_fails E (OpGet fp)"
  proof -
    have "conn s1 \<or> \<not> db_fails E OpConnect"
      using that reads_only_conn [OF r1] by auto
    with gr that have "g = Inr (map_of (rows s) fp)" by simp
    with assms m g show ?thesis
      by (auto simp: check_path_def split: option.splits prod.splits)
  qed
qed

lemma check_paths_reads:
  "check_paths E ps (c, s) = (r, s') \<Longrightarrow>
   reads_only (\<lambda>e. hasher_event e = None
      \<or> (\<exists>p \<in> set ps. hasher_event e = Some p \<and> unchanged_metadata E (rows s) p)) s s'"
proof (induction ps arbitrary: c s)
  case Nil
  then show ?case by simp
next
  case (Cons p ps)
  obtain r1 s1 where p: "check_path E p (c, s) = (r1, s1)"
    by (cases "check_path E p (c, s)")
  let ?Q = "\<lambda>e. hasher_event e = None
      \<or> (\<exists>q \<in> set (p # ps). hasher_event e = Some q \<and> unchanged_metadata E (rows s) q)"
  have a: "reads_only ?Q s s1"
    by (rule reads_only_mono [OF check_path_effect(1) [OF p]]) auto
  show ?case
  proof (cases r1)
    case (Inl e)
    with Cons.prems p a show ?thesis by simp
  next
    case (Inr c1)
    with Cons.prems p have "check_paths E ps (c1, s1) = (r, s')" by simp
    from Cons.IH [OF this] have "reads_only ?Q s1 s'"
      by (rule reads_only_mono) (auto simp: reads_only_rows [OF a])
    with a show ?thesis by (rule reads_only_trans)
  qed
qed

lemma check_paths_modified:
  "check_paths E ps (c, s) = (Inr c', s') \<Longrightarrow> \<forall>p \<in> set ps. map_of (rows s) p \<noteq> None \<Longrightarrow>
   c' = c\<lparr>modified := modified c @ concat (map (path_mismatch E (rows s)) ps)\<rparr>"
proof (induction ps arbitrary: c s)
  case Nil
  then show ?case by simp
next
  case (Cons p ps)
  obtain r1 s1 where p: "check_path E p (c, s) = (r1, s1)"
    by (cases "check_path E p (c, s)")
  with Cons.prems obtain c1 where r1: "r1 = Inr c1" and
      rest: "check_paths E ps (c1, s1) = (Inr c', s')"
    by (cases r1) auto
  have rows1: "rows s1 = rows s"
    using check_path_effect(1) [OF p] by (rule reads_only_rows)
  have c1: "c1 = c\<lparr>modified := modified c @ path_mismatch E (rows s) p\<rparr>"
    using check_path_effect(2) [OF p _ r1] Cons.prems(2) by simp
  from Cons.IH [OF rest] Cons.prems(2) rows1 c1 show ?case by simp
qed

lemma check_paths_returns:
  "check_paths E ps (c, s) = (r, s') \<Longrightarrow>
   (conn s \<or> \<not> db_fails E OpConnect) \<and> (\<forall>p \<in> set ps. \<not> db_fails E (OpGet p)) \<Longrightarrow>
   \<exists>c'. r = Inr c'"
proof (induction ps arbitrary: c s)
  case Nil
  then show ?case by auto
next
  case (Cons p ps)
  obtain r1 s1 where p: "check_path E p (c, s) = (r1, s1)"
    by (cases "check_path E p (c, s)")
  from check_path_effect(3) [OF p] Cons.prems(2) obtain c1 where r1: "r1 = Inr c1" by auto
  have "conn s1 \<or> \<not> db_fails E OpConnect"
    using reads_only_conn [OF check_path_effect(1) [OF p]] Cons.prems(2) by auto
  moreover have "check_paths E ps (c1, s1) = (r, s')"
    using Cons.prems(1) p r1 by simp
  ultimately show ?case using Cons.IH Cons.prems(2) by auto
qed

lemma set_add_set [simp]: "set (set_add x xs) = insert x (set xs)"
  by (auto simp: set_add_def)

lemma set_add_distinct [simp]: "distinct (set_add x xs) = distinct xs"
  by (auto simp: set_add_def)

lemma foldl_set_add:
  "set (foldl (\<lambda>acc r. set_add (f r) acc) acc rs) = set acc \<union> f ` set rs"
  "distinct (foldl (\<lambda>acc r. set_add (f r) acc) acc rs) = distinct acc"
  by (induction rs arbitrary: acc) auto

lemma get_all_baseline_paths_reads:
  "reads_only (\<lambda>e. hasher_event e = None) s (snd (get_all_baseline_paths E s))"
  using get_connection_reads [of s E]
  by (auto simp: get_all_baseline_paths_def reads_only_logmsg_after
      split: prod.splits sum.splits)

lemma get_all_baseline_paths_result:
  "get_all_baseline_paths E s = (Inr B, s') \<Longrightarrow>
     set B = fst ` set (rows s) \<and> distinct B \<and> conn s'"
  using get_connection_cases [of E s]
  by (force simp: get_all_baseline_paths_def foldl_set_add split: prod.splits sum.splits if_splits)

lemma get_all_baseline_paths_returns:
  "(conn s \<or> \<not> db_fails E OpConnect) \<and> \<not> db_fails E OpAllPaths \<Longrightarrow>
     \<exists>B. fst (get_all_baseline_paths E s) = Inr B"
  using get_connection_cases [of E s]
  by (auto simp: get_all_baseline_paths_def split: prod.splits sum.splits if_splits)

lemma foldl_cond_set_add:
  "set (foldl (\<lambda>cur fp. if P fp then set_add fp cur else cur) cur xs)
     = set cur \<union> {fp \<in> set xs. P fp}"
  "distinct (foldl (\<lambda>cur fp. if P fp then set_add fp cur else cur) cur xs) = distinct cur"
  by (induction xs arbitrary: cur) auto

lemma collect_include_set:
  "set (collect_include E M cur ip) = set cur \<union>
     (if path_exists E (abspath E ip)
      then {fp \<in> set (walked_files E (abspath E ip)). is_path_monitored E M fp} else {})"
  "distinct (collect_include E M cur ip) = distinct cur"
  by (auto simp: collect_include_def Let_def foldl_cond_set_add)

lemma foldl_collect_include:
  "set (foldl (collect_include E M) cur ips) = set cur \<union>
     {fp. \<exists>ip \<in> set ips. path_exists E (abspath E ip)
        \<and> fp \<in> set (walked_files E (abspath E ip)) \<and> is_path_monitored E M fp}"
  "distinct (foldl (collect_include E M) cur ips) = distinct cur"
  by (induction ips arbitrary: cur) (auto simp: collect_include_set)

lemma collect_current_paths_set:
  "set (collect_current_paths E M) =
     {fp. \<exists>ip \<in> set (include_list M). path_exists E (abspath E ip)
        \<and> fp \<in> set (walked_files E (abspath E ip)) \<and> is_path_monitored E M fp}"
  "distinct (collect_current_paths E M)"
  by (simp_all add: collect_current_paths_def foldl_collect_include)

lemma foldl_report_added:
  "foldl report_added (c, s) ps = (c', s') \<Longrightarrow>
     c' = c\<lparr>added := added c @
            map (\<lambda>fp. [(''file'', PyStr fp), (''reason'', PyStr ''New file not in baseline'')]) ps\<rparr>
     \<and> reads_only (\<lambda>e. hasher_event e = None) s s'"
proof (induction ps arbitrary: c s)
  case Nil
  then show ?case by simp
next
  case (Cons p ps)
  let ?c1 = "c\<lparr>added := added c @
      [[(''file'', PyStr p), (''reason'', PyStr ''New file not in baseline'')]]\<rparr>"
  let ?s1 = "logmsg INFO (AddedDetected p) s"
  have step: "report_added (c, s) p = (?c1, ?s1)" by (simp add: report_added_def)
  have r: "reads_only (\<lambda>e. hasher_event e = None) s ?s1"
    by (simp add: reads_only_logmsg)
  from Cons.prems step have "foldl report_added (?c1, ?s1) ps = (c', s')" by simp
  from Cons.IH [OF this] r show ?case
    by (auto intro: reads_only_trans)
qed

lemma foldl_report_deleted:
  "foldl report_deleted (c, s) ps = (c', s') \<Longrightarrow>
     c' = c\<lparr>deleted := deleted c @
            map (\<lambda>fp. [(''file'', PyStr fp),
                        (''reason'', PyStr ''File deleted from monitored path'')]) ps\<rparr>
     \<and> reads_only (\<lambda>e. hasher_event e = None) s s'"
proof (induction ps arbitrary: c s)
  case Nil
  then show ?case by simp
next
  case (Cons p ps)
  let ?c1 = "c\<lparr>deleted := deleted c @
      [[(''file'', PyStr p), (''reason'', PyStr ''File deleted from monitored path'')]]\<rparr>"
  let ?s1 = "logmsg WARNING (DeletedDetected p) s"
  have step: "report_deleted (c, s) p = (?c1, ?s1)" by (simp add: report_deleted_def)
  have r: "reads_only (\<lambda>e. hasher_event e = None) s ?s1"
    by (simp add: reads_only_logmsg)
  from Cons.prems step have "foldl report_deleted (?c1, ?s1) ps = (c', s')" by simp
  from Cons.IH [OF this] r show ?case
    by (auto intro: reads_only_trans)
qed

lemma check_integrity_cases:
  assumes "check_integrity E M s = (r, s')"
  obtains (Fail) e where
      "get_all_baseline_paths E (logmsg INFO CheckingIntegrity s) = (Inl e, s')" "r = Inl e"
  | (Run) B s1 c1 s1' c2 s2 r3 s3 where
      "get_all_baseline_paths E (logmsg INFO CheckingIntegrity s) = (Inr B, s1)"
      "foldl report_added (\<lparr>added = [], modified = [], deleted = []\<rparr>, s1)
         (set_difference (collect_current_paths E M) B) = (c1, s1')"
      "foldl report_deleted (c1, s1') (set_difference B (collect_current_paths E M)) = (c2, s2)"
      "check_paths E (set_intersection B (collect_current_paths E M)) (c2, s2) = (r3, s3)"
      "\<And>e. r3 = Inl e \<Longrightarrow> r = Inl e \<and> s' = s3"
      "\<And>c. r3 = Inr c \<Longrightarrow> r = Inr c \<and> s' = logmsg INFO CheckComplete s3"
proof -
  obtain g s1 where g: "get_all_baseline_paths E (logmsg INFO CheckingIntegrity s) = (g, s1)"
    by (cases "get_all_baseline_paths E (logmsg INFO CheckingIntegrity s)")
  show thesis
  proof (cases g)
    case (Inl e)
    with assms g have "r = Inl e" "s' = s1" by (simp_all add: check_integrity_def)
    with g Inl show thesis by (auto intro: Fail)
  next
    case (Inr B)
    obtain c1 s1' where a: "foldl report_added (\<lparr>added = [], modified = [], deleted = []\<rparr>, s1)
         (set_difference (collect_current_paths E M) B) = (c1, s1')"
      by (cases "foldl report_added (\<lparr>added = [], modified = [], deleted = []\<rparr>, s1)
         (set_difference (collect_current_paths E M) B)")
    obtain c2 s2 where d:
      "foldl report_deleted (c1, s1') (set_difference B (collect_current_paths E M)) = (c2, s2)"
      by (cases "foldl report_deleted (c1, s1')
         (set_difference B (collect_current_paths E M))")
    obtain r3 s3 where cp:
      "check_paths E (set_intersection B (collect_current_paths E M)) (c2, s2) = (r3, s3)"
      by (cases "check_paths E (set_intersection B (collect_current_paths E M)) (c2, s2)")
    have "(r, s') = (case r3 of Inl e \<Rightarrow> (Inl e, s3)
                     | Inr c \<Rightarrow> (Inr c, logmsg INFO CheckComplete s3))"
      using assms g Inr a d cp by (simp add: check_integrity_def Let_def)
    then have "\<And>e. r3 = Inl e \<Longrightarrow> r = Inl e \<and> s' = s3"
      and "\<And>c. r3 = Inr c \<Longrightarrow> r = Inr c \<and> s' = logmsg INFO CheckComplete s3"
      by auto
    with g Inr a d cp show thesis by (auto intro: Run)
  qed
qed

lemma check_integrity_reads:
  assumes "check_integrity E M s = (r, s')"
  shows "reads_only (\<lambda>e. hasher_event e = None
      \<or> (\<exists>p \<in> fst ` set (rows s) \<inter> set (collect_current_paths E M).
            hasher_event e = Some p \<and> unchanged_metadata E (rows s) p)) s s'"
    (is "reads_only ?P s s'")
proof -
  let ?s0 = "logmsg INFO CheckingIntegrity s"
  have r0: "reads_only ?P s ?s0" by (simp add: reads_only_logmsg)
  have r1: "reads_only ?P ?s0 (snd (get_all_baseline_paths E ?s0))"
    by (rule reads_only_mono [OF get_all_baseline_paths_reads]) simp
  from assms show ?thesis
  proof (cases rule: check_integrity_cases)
    case (Fail e)
    with r0 r1 show ?thesis by (auto intro: reads_only_trans)
  next
    case (Run B s1 c1 s1' c2 s2 r3 s3)
    have s1: "reads_only ?P s s1"
      using r0 r1 Run(1) by (auto intro: reads_only_trans)
    have "reads_only ?P s1 s1'"
      using foldl_report_added [OF Run(2)] by (auto intro: reads_only_mono)
    moreover have "reads_only ?P s1' s2"
      using foldl_report_deleted [OF Run(3)] by (auto intro: reads_only_mono)
    ultimately have s2: "reads_only ?P s s2"
      using s1 by (blast intro: reads_only_trans)
    have rows2: "rows s2 = rows s" by (rule reads_only_rows [OF s2])
    have "set B = fst ` set (rows s)"
      using get_all_baseline_paths_result [OF Run(1)] by (simp add: logmsg_def)
    then have "reads_only ?P s2 s3"
      using check_paths_reads [OF Run(4)]
      by (auto simp: rows2 set_intersection_def intro: reads_only_mono)
    with s2 have s3: "reads_only ?P s s3" by (rule reads_only_trans)
    show ?thesis
    proof (cases r3)
      case (Inl e)
      with Run(5) s3 show ?thesis by simp
    next
      case (Inr c)
      with Run(6) s3 show ?thesis by (auto intro: reads_only_logmsg_after)
    qed
  qed
qed

lemma check_integrity_report:
  assumes "check_integrity E M s = (Inr c, s')"
  shows "\<exists>B. set B = fst ` set (rows s) \<and> distinct B
     \<and> added c = map (\<lambda>fp. [(''file'', PyStr fp), (''reason'', PyStr ''New file not in baseline'')])
          (set_difference (collect_current_paths E M) B)
     \<and> deleted c = map (\<lambda>fp. [(''file'', PyStr fp),
                        (''reason'', PyStr ''File deleted from monitored path'')])
          (set_difference B (collect_current_paths E M))
     \<and> modified c = concat (map (path_mismatch E (rows s))
          (set_intersection B (collect_current_paths E M)))"
  using assms
proof (cases rule: check_integrity_cases)
  case (Fail e)
  then show ?thesis by simp
next
  case (Run B s1 c1 s1' c2 s2 r3 s3)
  let ?s0 = "logmsg INFO CheckingIntegrity s"
  have r3: "r3 = Inr c" using Run(5,6) by (cases r3) auto
  have Bset: "set B = fst ` set (rows s)" "distinct B"
    using get_all_baseline_paths_result [OF Run(1)] by (simp_all add: logmsg_def)
  have rows1: "rows s1 = rows s"
    using get_all_baseline_paths_reads [of ?s0 E] Run(1)
    by (simp add: reads_only_def logmsg_def)
  note A = foldl_report_added [OF Run(2)]
  note D = foldl_report_deleted [OF Run(3)]
  have rows2: "rows s2 = rows s"
    using A D rows1 by (simp add: reads_only_def)
  have "\<forall>p \<in> set (set_intersection B (collect_current_paths E M)). map_of (rows s2) p \<noteq> None"
    using Bset rows2 by (auto simp: set_intersection_def map_of_eq_None_iff)
  from check_paths_modified [OF Run(4) [unfolded r3] this]
  have "c = c2\<lparr>modified := modified c2 @ concat (map (path_mismatch E (rows s))
          (set_intersection B (collect_current_paths E M)))\<rparr>"
    by (simp add: rows2)
  with A D Bset show ?thesis by auto
qed

lemma check_integrity_returns:
  assumes "conn s \<or> \<not> db_fails E OpConnect" and "\<not> db_fails E OpAllPaths"
    and "\<forall>p \<in> fst ` set (rows s). \<not> db_fails E (OpGet p)"
  shows "\<exists>c. fst (check_integrity E M s) = Inr c"
proof -
  let ?s0 = "logmsg INFO CheckingIntegrity s"
  obtain r s' where rs: "check_integrity E M s = (r, s')"
    by (cases "check_integrity E M s")
  have c0: "conn ?s0 \<or> \<not> db_fails E OpConnect" using assms(1) by (simp add: logmsg_def)
  from get_all_baseline_paths_returns [of ?s0 E] c0 assms(2)
  obtain B' where Bf: "fst (get_all_baseline_paths E ?s0) = Inr B'" by auto
  from rs show ?thesis
  proof (cases rule: check_integrity_cases)
    case (Fail e)
    with Bf show ?thesis by simp
  next
    case (Run B s1 c1 s1' c2 s2 r3 s3)
    have Bset: "set B = fst ` set (rows s)" and c1: "conn s1"
      using get_all_baseline_paths_result [OF Run(1)] by (simp_all add: logmsg_def)
    have "conn s2"
      using foldl_report_added [OF Run(2)] foldl_report_deleted [OF Run(3)] c1
      by (auto dest: reads_only_conn)
    moreover have
      "\<forall>p \<in> set (set_intersection B (collect_current_paths E M)). \<not> db_fails E (OpGet p)"
      using assms(3) Bset by (auto simp: set_intersection_def)
    ultimately obtain c where "r3 = Inr c"
      using check_paths_returns [OF Run(4)] by auto
    with Run(6) rs show ?thesis by auto
  qed
qed

section \<open>The change report\<close>

lemma mismatch_file:
  "d \<in> set (mismatch E fp md be) \<Longrightarrow> map_of d ''file'' = Some (PyStr fp)"
  by (auto simp: mismatch_eq split: if_splits sum.splits)

lemma mismatch_length: "length (mismatch E fp md be) \<le> 1"
  by (auto simp: mismatch_eq split: sum.splits)

lemma mismatch_type:
  "d \<in> set (mismatch E fp md be) \<Longrightarrow>
     length (filter (\<lambda>kv. fst kv = ''type'') d) = 1
     \<and> map_of d ''type'' \<in> Some ` PyStr `
          {''size_mismatch'', ''mtime_mismatch'', ''permissions_mismatch'', ''hash_mismatch''}"
  by (auto simp: mismatch_eq split: if_splits sum.splits)

lemma path_mismatch_file:
  "d \<in> set (path_mismatch E rs fp) \<Longrightarrow> map_of d ''file'' = Some (PyStr fp)"
  by (auto simp: path_mismatch_def mismatch_file split: option.splits)

lemma path_mismatch_length: "length (path_mismatch E rs fp) \<le> 1"
  using mismatch_length [of E fp]
  by (auto simp: path_mismatch_def split: option.splits)

lemma path_mismatch_type:
  "d \<in> set (path_mismatch E rs fp) \<Longrightarrow>
     length (filter (\<lambda>kv. fst kv = ''type'') d) = 1
     \<and> map_of d ''type'' \<in> Some ` PyStr `
          {''size_mismatch'', ''mtime_mismatch'', ''permissions_mismatch'', ''hash_mismatch''}"
  by (auto simp: path_mismatch_def dest: mismatch_type split: option.splits)

lemma filter_concat_path_mismatch:
  "distinct ps \<Longrightarrow>
   filter (\<lambda>d. map_of d ''file'' = Some (PyStr p)) (concat (map (path_mismatch E rs) ps))
     = (if p \<in> set ps then path_mismatch E rs p else [])"
proof (induction ps)
  case Nil
  then show ?case by simp
next
  case (Cons q ps)
  have "filter (\<lambda>d. map_of d ''file'' = Some (PyStr p)) (path_mismatch E rs q)
          = (if q = p then path_mismatch E rs p else [])"
    by (auto simp: filter_empty_conv filter_id_conv path_mismatch_file)
  with Cons show ?case by auto
qed

lemma files_concat_path_mismatch:
  "set (map (\<lambda>d. map_of d ''file'') (concat (map (path_mismatch E rs) ps)))
     \<subseteq> (\<lambda>p. Some (PyStr p)) ` set ps"
  by (auto simp: path_mismatch_file)

lemma distinct_concat_path_mismatch:
  "distinct ps \<Longrightarrow>
   distinct (map (\<lambda>d. map_of d ''file'') (concat (map (path_mismatch E rs) ps)))"
proof (induction ps)
  case Nil
  then show ?case by simp
next
  case (Cons q ps)
  have one: "distinct (map (\<lambda>d. map_of d ''file'') (path_mismatch E rs q))"
    using path_mismatch_length [of E rs q]
    by (cases "path_mismatch E rs q") auto
  have "set (map (\<lambda>d. map_of d ''file'') (path_mismatch E rs q)) \<subseteq> {Some (PyStr q)}"
    by (auto simp: path_mismatch_file)
  moreover have "Some (PyStr q) \<notin> set (map (\<lambda>d. map_of d ''file'')
      (concat (map (path_mismatch E rs) ps)))"
    using files_concat_path_mismatch [of E rs ps] Cons.prems by auto
  ultimately have "set (map (\<lambda>d. map_of d ''file'') (path_mismatch E rs q))
      \<inter> set (map (\<lambda>d. map_of d ''file'') (concat (map (path_mismatch E rs) ps))) = {}"
    by blast
  with Cons one show ?case by simp
qed

lemma sample_check:
  "fst (check_integrity sample_env sample_paths sample_state) =
     Inr \<lparr>added = [[(''file'', PyStr ''/data/tmp/b.txt''),
                     (''reason'', PyStr ''New file not in baseline'')]],
          modified = [[(''file'', PyStr ''/data/a.txt''), (''type'', PyStr ''size_mismatch''),
                       (''old_size'', PyInt 4), (''new_size'', PyInt 5)]],
          deleted = [[(''file'', PyStr ''/data/old.txt''),
                      (''reason'', PyStr ''File deleted from monitored path'')]]\<rparr>"
  by code_simp

lemma sample_check_logged:
  "logged (snd (check_integrity sample_env sample_paths sample_state)) =
     [(INFO, CheckingIntegrity), (INFO, ConnOpened),
      (INFO, AddedDetected ''/data/tmp/b.txt''),
      (WARNING, DeletedDetected ''/data/old.txt''),
      (WARNING, SizeMismatch ''/data/a.txt''), (INFO, CheckComplete)]"
  by code_simp

lemma sample_current_paths:
  "collect_current_paths sample_env sample_paths = [''/data/a.txt'', ''/data/tmp/b.txt'']"
  by code_simp

text \<open>
  Claim C9. \<^verbatim>\<open>check_integrity\<close> writes nothing to the baseline store: whatever the
  configuration, the file system and the state, and whether it returns a report or
  raises, the table afterwards is the table before, row for row (so the stored paths
  and the stored entry of every path are the same), and \<^verbatim>\<open>time.time\<close> has not been
  read. The two reading methods of the store, \<^verbatim>\<open>get_baseline_entry\<close> and
  \<^verbatim>\<open>get_all_baseline_paths\<close>, leave the table as it is too; only
  \<^verbatim>\<open>save_baseline_entry\<close> (which \<^verbatim>\<open>create_baseline\<close> calls) and
  \<^verbatim>\<open>remove_baseline_entry\<close> assign to it.
\<close>

theorem check_integrity_store_unchanged:
  "rows (snd (check_integrity E M s)) = rows s
   \<and> clock (snd (check_integrity E M s)) = clock s
   \<and> rows (snd (get_baseline_entry E p s)) = rows s
   \<and> rows (snd (get_all_baseline_paths E s)) = rows s"
proof -
  obtain r s' where "check_integrity E M s = (r, s')"
    by (cases "check_integrity E M s")
  from check_integrity_reads [OF this] this
  have "rows (snd (check_integrity E M s)) = rows s"
    and "clock (snd (check_integrity E M s)) = clock s"
    by (simp_all add: reads_only_def)
  moreover have "rows (snd (get_baseline_entry E p s)) = rows s"
    by (rule reads_only_rows [OF get_baseline_entry_reads])
  moreover have "rows (snd (get_all_baseline_paths E s)) = rows s"
    by (rule reads_only_rows [OF get_all_baseline_paths_reads])
  ultimately show ?thesis by simp
qed

theorem check_integrity_store_unchanged_witness:
  "rows (snd (check_integrity sample_env sample_paths sample_state)) = rows sample_state
   \<and> logged (snd (check_integrity sample_env sample_paths sample_state))
       \<noteq> logged sample_state"
  using check_integrity_store_unchanged
    [of sample_env sample_paths sample_state "''/data/a.txt''"]
  by (simp add: sample_check_logged) (simp add: sample_state_def)

text \<open>
  Claim C2, as amended. Let \<open>B\<close> be the paths stored in the table and \<open>C\<close> the
  monitored paths the walk finds. When the store can be read, \<^verbatim>\<open>check_integrity\<close>
  returns a report; and in every report it returns, the added entries are exactly one
  entry for each path of \<open>C - B\<close>, each with reason \<^verbatim>\<open>New file not in baseline\<close>, and
  the deleted entries exactly one entry for each path of \<open>B - C\<close>, each with reason
  \<^verbatim>\<open>File deleted from monitored path\<close>.
\<close>

theorem check_integrity_added_deleted:
  "((conn s \<or> \<not> db_fails E OpConnect) \<and> \<not> db_fails E OpAllPaths
      \<and> (\<forall>p \<in> fst ` set (rows s). \<not> db_fails E (OpGet p))
     \<longrightarrow> (\<exists>c. fst (check_integrity E M s) = Inr c))
   \<and> (fst (check_integrity E M s) = Inr c \<longrightarrow>
        set (added c) =
          (\<lambda>fp. [(''file'', PyStr fp), (''reason'', PyStr ''New file not in baseline'')]) `
            (set (collect_current_paths E M) - fst ` set (rows s))
        \<and> distinct (added c)
        \<and> set (deleted c) =
          (\<lambda>fp. [(''file'', PyStr fp), (''reason'', PyStr ''File deleted from monitored path'')]) `
            (fst ` set (rows s) - set (collect_current_paths E M))
        \<and> distinct (deleted c))"
proof (intro conjI impI)
  assume "(conn s \<or> \<not> db_fails E OpConnect) \<and> \<not> db_fails E OpAllPaths
      \<and> (\<forall>p \<in> fst ` set (rows s). \<not> db_fails E (OpGet p))"
  then show "\<exists>c. fst (check_integrity E M s) = Inr c"
    using check_integrity_returns [of s E M] by blast
next
  assume "fst (check_integrity E M s) = Inr c"
  then have "check_integrity E M s = (Inr c, snd (check_integrity E M s))"
    by (metis prod.collapse)
  from check_integrity_report [OF this] obtain B where
    B: "set B = fst ` set (rows s)" "distinct B"
    and a: "added c = map (\<lambda>fp. [(''file'', PyStr fp),
                                   (''reason'', PyStr ''New file not in baseline'')])
          (set_difference (collect_current_paths E M) B)"
    and d: "deleted c = map (\<lambda>fp. [(''file'', PyStr fp),
                        (''reason'', PyStr ''File deleted from monitored path'')])
          (set_difference B (collect_current_paths E M))"
    by blast
  show "set (added c) =
          (\<lambda>fp. [(''file'', PyStr fp), (''reason'', PyStr ''New file not in baseline'')]) `
            (set (collect_current_paths E M) - fst ` set (rows s))"
    using a B by (auto simp: set_difference_def)
  show "distinct (added c)"
    using a collect_current_paths_set(2) [of E M]
    by (simp add: distinct_map set_difference_def inj_on_def)
  show "set (deleted c) =
          (\<lambda>fp. [(''file'', PyStr fp), (''reason'', PyStr ''File deleted from monitored path'')]) `
            (fst ` set (rows s) - set (collect_current_paths E M))"
    using d B by (auto simp: set_difference_def)
  show "distinct (deleted c)"
    using d B(2)
    by (simp add: distinct_map set_difference_def inj_on_def)
qed

theorem check_integrity_added_deleted_witness:
  "fst (check_integrity sample_env sample_paths sample_state) \<noteq> Inl SqliteError
   \<and> set (added (projr (fst (check_integrity sample_env sample_paths sample_state)))) =
       {[(''file'', PyStr ''/data/tmp/b.txt''), (''reason'', PyStr ''New file not in baseline'')]}
   \<and> set (deleted (projr (fst (check_integrity sample_env sample_paths sample_state)))) =
       {[(''file'', PyStr ''/data/old.txt''),
         (''reason'', PyStr ''File deleted from monitored path'')]}"
  using check_integrity_added_deleted [of sample_state sample_env sample_paths
      "projr (fst (check_integrity sample_env sample_paths sample_state))"]
  by (simp add: sample_check)

text \<open>
  The claim as first stated spells the two reasons with a lower-case initial; the
  entries the code emits do not have those strings.
\<close>

theorem check_integrity_added_deleted_counterexample:
  "\<exists>c. fst (check_integrity sample_env sample_paths sample_state) = Inr c
     \<and> set (collect_current_paths sample_env sample_paths) - fst ` set (rows sample_state)
         = {''/data/tmp/b.txt''}
     \<and> fst ` set (rows sample_state) - set (collect_current_paths sample_env sample_paths)
         = {''/data/old.txt''}
     \<and> [(''file'', PyStr ''/data/tmp/b.txt''), (''reason'', PyStr ''new file not in baseline'')]
         \<notin> set (added c)
     \<and> [(''file'', PyStr ''/data/old.txt''),
         (''reason'', PyStr ''file deleted from monitored path'')] \<notin> set (deleted c)"
  by (simp add: sample_check sample_current_paths) (auto simp: sample_state_def)

lemma report_files:
  assumes "check_integrity E M s = (Inr c, s')"
  shows "distinct (map (\<lambda>d. map_of d ''file'') (added c))"
    and "distinct (map (\<lambda>d. map_of d ''file'') (modified c))"
    and "distinct (map (\<lambda>d. map_of d ''file'') (deleted c))"
    and "set (map (\<lambda>d. map_of d ''file'') (added c)) =
           (\<lambda>p. Some (PyStr p)) ` (set (collect_current_paths E M) - fst ` set (rows s))"
    and "set (map (\<lambda>d. map_of d ''file'') (modified c)) \<subseteq>
           (\<lambda>p. Some (PyStr p)) ` (fst ` set (rows s) \<inter> set (collect_current_paths E M))"
    and "set (map (\<lambda>d. map_of d ''file'') (deleted c)) =
           (\<lambda>p. Some (PyStr p)) ` (fst ` set (rows s) - set (collect_current_paths E M))"
proof -
  from check_integrity_report [OF assms] obtain B where
    B: "set B = fst ` set (rows s)" "distinct B"
    and a: "added c = map (\<lambda>fp. [(''file'', PyStr fp),
                                   (''reason'', PyStr ''New file not in baseline'')])
          (set_difference (collect_current_paths E M) B)"
    and d: "deleted c = map (\<lambda>fp. [(''file'', PyStr fp),
                        (''reason'', PyStr ''File deleted from monitored path'')])
          (set_difference B (collect_current_paths E M))"
    and m: "modified c = concat (map (path_mismatch E (rows s))
          (set_intersection B (collect_current_paths E M)))"
    by blast
  have fa: "map (\<lambda>d. map_of d ''file'') (added c) =
      map (\<lambda>p. Some (PyStr p)) (set_difference (collect_current_paths E M) B)"
    by (simp add: a)
  have fd: "map (\<lambda>d. map_of d ''file'') (deleted c) =
      map (\<lambda>p. Some (PyStr p)) (set_difference B (collect_current_paths E M))"
    by (simp add: d)
  show "distinct (map (\<lambda>d. map_of d ''file'') (added c))"
    unfolding fa using collect_current_paths_set(2) [of E M]
    by (simp add: distinct_map set_difference_def inj_on_def)
  show "distinct (map (\<lambda>d. map_of d ''file'') (deleted c))"
    unfolding fd using B(2)
    by (simp add: distinct_map set_difference_def inj_on_def)
  show "distinct (map (\<lambda>d. map_of d ''file'') (modified c))"
    unfolding m using B(2)
    by (intro distinct_concat_path_mismatch) (simp add: set_intersection_def)
  show "set (map (\<lambda>d. map_of d ''file'') (added c)) =
           (\<lambda>p. Some (PyStr p)) ` (set (collect_current_paths E M) - fst ` set (rows s))"
    unfolding fa using B(1) by (auto simp: set_difference_def)
  show "set (map (\<lambda>d. map_of d ''file'') (deleted c)) =
           (\<lambda>p. Some (PyStr p)) ` (fst ` set (rows s) - set (collect_current_paths E M))"
    unfolding fd using B(1) by (auto simp: set_difference_def)
  show "set (map (\<lambda>d. map_of d ''file'') (modified c)) \<subseteq>
           (\<lambda>p. Some (PyStr p)) ` (fst ` set (rows s) \<inter> set (collect_current_paths E M))"
  proof
    fix x assume "x \<in> set (map (\<lambda>d. map_of d ''file'') (modified c))"
    then obtain d p where "d \<in> set (path_mismatch E (rows s) p)"
      and p: "p \<in> set (set_intersection B (collect_current_paths E M))"
      and x: "x = map_of d ''file''"
      unfolding m by auto
    then have "x = Some (PyStr p)" by (simp add: path_mismatch_file)
    with p B(1) show "x \<in> (\<lambda>p. Some (PyStr p)) `
        (fst ` set (rows s) \<inter> set (collect_current_paths E M))"
      by (auto simp: set_intersection_def)
  qed
qed

text \<open>
  Claim C10. In every report \<^verbatim>\<open>check_integrity\<close> returns, the paths under key
  \<^verbatim>\<open>file\<close> of the added, modified and deleted entries, taken together, are pairwise
  different: no path is in two collections and none twice in one. Every entry has
  such a path, and every modified entry has exactly one key \<^verbatim>\<open>type\<close>, whose value is
  one of the four mismatch kinds.
\<close>

theorem check_integrity_partition:
  "fst (check_integrity E M s) = Inr c \<longrightarrow>
     distinct (map (\<lambda>d. map_of d ''file'') (added c @ modified c @ deleted c))
     \<and> (\<forall>d \<in> set (added c @ modified c @ deleted c). \<exists>p. map_of d ''file'' = Some (PyStr p))
     \<and> (\<forall>d \<in> set (modified c).
          length (filter (\<lambda>kv. fst kv = ''type'') d) = 1
          \<and> map_of d ''type'' \<in> Some ` PyStr `
               {''size_mismatch'', ''mtime_mismatch'', ''permissions_mismatch'',
                ''hash_mismatch''})"
proof
  assume "fst (check_integrity E M s) = Inr c"
  then have run: "check_integrity E M s = (Inr c, snd (check_integrity E M s))"
    by (metis prod.collapse)
  note F = report_files [OF run]
  let ?f = "\<lambda>d. map_of d ''file''"
  have disj: "set (map ?f (added c)) \<inter> set (map ?f (modified c)) = {}"
    "set (map ?f (added c)) \<inter> set (map ?f (deleted c)) = {}"
    "set (map ?f (modified c)) \<inter> set (map ?f (deleted c)) = {}"
    using F(5) unfolding F(4) F(6) by blast+
  have "distinct (map (\<lambda>d. map_of d ''file'') (added c @ modified c @ deleted c))"
    using F(1,2,3) disj by (simp add: Int_Un_distrib)
  moreover have "\<forall>d \<in> set (added c @ modified c @ deleted c).
      \<exists>p. map_of d ''file'' = Some (PyStr p)"
  proof
    fix d assume "d \<in> set (added c @ modified c @ deleted c)"
    then have "?f d \<in> set (map ?f (added c)) \<union> set (map ?f (modified c))
        \<union> set (map ?f (deleted c))"
      by auto
    with F(5) show "\<exists>p. map_of d ''file'' = Some (PyStr p)"
      unfolding F(4) F(6) by blast
  qed
  moreover have "\<forall>d \<in> set (modified c).
          length (filter (\<lambda>kv. fst kv = ''type'') d) = 1
          \<and> map_of d ''type'' \<in> Some ` PyStr `
               {''size_mismatch'', ''mtime_mismatch'', ''permissions_mismatch'',
                ''hash_mismatch''}"
  proof -
    from check_integrity_report [OF run] obtain B where
      "modified c = concat (map (path_mismatch E (rows s))
          (set_intersection B (collect_current_paths E M)))"
      by blast
    then show ?thesis
      using path_mismatch_type [of _ E "rows s"] by auto
  qed
  ultimately show "distinct (map (\<lambda>d. map_of d ''file'') (added c @ modified c @ deleted c))
     \<and> (\<forall>d \<in> set (added c @ modified c @ deleted c). \<exists>p. map_of d ''file'' = Some (PyStr p))
     \<and> (\<forall>d \<in> set (modified c).
          length (filter (\<lambda>kv. fst kv = ''type'') d) = 1
          \<and> map_of d ''type'' \<in> Some ` PyStr `
               {''size_mismatch'', ''mtime_mismatch'', ''permissions_mismatch'',
                ''hash_mismatch''})"
    by blast
qed

theorem check_integrity_partition_witness:
  "distinct (map (\<lambda>d. map_of d ''file'')
      (added (projr (fst (check_integrity sample_env sample_paths sample_state)))
       @ modified (projr (fst (check_integrity sample_env sample_paths sample_state)))
       @ deleted (projr (fst (check_integrity sample_env sample_paths sample_state)))))
   \<and> length (added (projr (fst (check_integrity sample_env sample_paths sample_state)))
       @ modified (projr (fst (check_integrity sample_env sample_paths sample_state)))
       @ deleted (projr (fst (check_integrity sample_env sample_paths sample_state)))) = 3"
  using check_integrity_partition [of sample_env sample_paths sample_state
      "projr (fst (check_integrity sample_env sample_paths sample_state))"]
  by (simp add: sample_check)

section \<open>The ordered comparison\<close>

lemma sample_check_same_metadata:
  "fst (check_integrity sample_env sample_paths_excluding sample_state_same_metadata) =
     Inr \<lparr>added = [],
          modified = [[(''file'', PyStr ''/data/a.txt''), (''type'', PyStr ''hash_mismatch''),
                       (''old_hash'', PyStr ''sha256:jello''),
                       (''new_hash'', PyStr ''sha256:hello'')]],
          deleted = []\<rparr>"
  by code_simp

lemma sample_check_same_metadata_logged:
  "logged (snd (check_integrity sample_env sample_paths_excluding sample_state_same_metadata)) =
     [(INFO, CheckingIntegrity), (INFO, ConnOpened),
      (DEBUG, HashingFile ''/data/a.txt'' ''sha256''),
      (DEBUG, HashGenerated ''/data/a.txt'' ''sha256:hello''),
      (WARNING, HashMismatch ''/data/a.txt''), (INFO, CheckComplete)]"
  by code_simp

lemma sample_current_paths_excluding:
  "collect_current_paths sample_env sample_paths_excluding = [''/data/a.txt'']"
  by code_simp

text \<open>
  Claim C1. Take a report that \<^verbatim>\<open>check_integrity\<close> returns and a path that the walk
  finds, whose metadata \<^verbatim>\<open>os.stat\<close> delivers and which has a row in the table. The
  modified entries for that path are then decided by the first difference in the order
  size, modification time, permission bits, digest: a \<^verbatim>\<open>size_mismatch\<close> entry when the
  sizes differ; else an \<^verbatim>\<open>mtime_mismatch\<close> entry when the modification times differ;
  else a \<^verbatim>\<open>permissions_mismatch\<close> entry when the permission bits differ; else, and
  only then, the digest is computed, and a \<^verbatim>\<open>hash_mismatch\<close> entry is emitted when it
  differs from the stored one (none when it is equal or cannot be computed). Each
  entry carries the stored and the current value of the field that differs (the
  permission bits in octal). There is at most one entry for the path. And when the
  log records written during the check include one of \<^verbatim>\<open>calculate_file_hash\<close> for the
  path, then size, modification time and permission bits all equal the stored values.
\<close>

theorem check_integrity_comparison_order:
  assumes "fst (check_integrity E M s) = Inr c"
    and "p \<in> set (collect_current_paths E M)"
    and "os_stat E p = Inr st"
    and "map_of (rows s) p = Some be"
  shows "filter (\<lambda>d. map_of d ''file'' = Some (PyStr p)) (modified c) =
      (if st_size st \<noteq> file_size be then
         [[(''file'', PyStr p), (''type'', PyStr ''size_mismatch''),
           (''old_size'', PyInt (file_size be)), (''new_size'', PyInt (st_size st))]]
       else if st_mtime st \<noteq> modification_time be then
         [[(''file'', PyStr p), (''type'', PyStr ''mtime_mismatch''),
           (''old_mtime'', PyFloat (modification_time be)),
           (''new_mtime'', PyFloat (st_mtime st))]]
       else if st_mode st AND 511 \<noteq> permissions be then
         [[(''file'', PyStr p), (''type'', PyStr ''permissions_mismatch''),
           (''old_perms'', PyStr (oct (permissions be))),
           (''new_perms'', PyStr (oct (st_mode st AND 511)))]]
       else (case fst (calculate_file_hash E p (HASH_ALGORITHM E) s) of
               Inl e \<Rightarrow> []
             | Inr h \<Rightarrow>
                 if h \<noteq> file_hash be then
                   [[(''file'', PyStr p), (''type'', PyStr ''hash_mismatch''),
                     (''old_hash'', PyStr (file_hash be)), (''new_hash'', PyStr h)]]
                 else []))
    \<and> length (filter (\<lambda>d. map_of d ''file'' = Some (PyStr p)) (modified c)) \<le> 1
    \<and> ((\<exists>x \<in> set (drop (length (logged s)) (logged (snd (check_integrity E M s)))).
           hasher_event (snd x) = Some p)
         \<longrightarrow> st_size st = file_size be \<and> st_mtime st = modification_time be
             \<and> st_mode st AND 511 = permissions be)"
proof -
  from assms(1) have run: "check_integrity E M s = (Inr c, snd (check_integrity E M s))"
    by (metis prod.collapse)
  from check_integrity_report [OF run] obtain B where
    B: "set B = fst ` set (rows s)" "distinct B"
    and m: "modified c = concat (map (path_mismatch E (rows s))
          (set_intersection B (collect_current_paths E M)))"
    by blast
  have pB: "p \<in> set (set_intersection B (collect_current_paths E M))"
    using assms(2,4) B(1) by (auto simp: set_intersection_def dest: map_of_SomeD intro: rev_image_eqI)
  have dist: "distinct (set_intersection B (collect_current_paths E M))"
    using B(2) by (simp add: set_intersection_def)
  have md: "fst (get_file_metadata E p empty_state) =
      Some \<lparr>file_path = p, file_size = st_size st, modification_time = st_mtime st,
            creation_time = st_ctime st, permissions = st_mode st AND 511\<rparr>"
    using assms(3) by (simp add: get_file_metadata_result)
  have f: "filter (\<lambda>d. map_of d ''file'' = Some (PyStr p)) (modified c) =
      path_mismatch E (rows s) p"
    unfolding m using filter_concat_path_mismatch [OF dist, of p E "rows s"] pB by simp
  have 1: "filter (\<lambda>d. map_of d ''file'' = Some (PyStr p)) (modified c) =
      (if st_size st \<noteq> file_size be then
         [[(''file'', PyStr p), (''type'', PyStr ''size_mismatch''),
           (''old_size'', PyInt (file_size be)), (''new_size'', PyInt (st_size st))]]
       else if st_mtime st \<noteq> modification_time be then
         [[(''file'', PyStr p), (''type'', PyStr ''mtime_mismatch''),
           (''old_mtime'', PyFloat (modification_time be)),
           (''new_mtime'', PyFloat (st_mtime st))]]
       else if st_mode st AND 511 \<noteq> permissions be then
         [[(''file'', PyStr p), (''type'', PyStr ''permissions_mismatch''),
           (''old_perms'', PyStr (oct (permissions be))),
           (''new_perms'', PyStr (oct (st_mode st AND 511)))]]
       else (case fst (calculate_file_hash E p (HASH_ALGORITHM E) s) of
               Inl e \<Rightarrow> []
             | Inr h \<Rightarrow>
                 if h \<noteq> file_hash be then
                   [[(''file'', PyStr p), (''type'', PyStr ''hash_mismatch''),
                     (''old_hash'', PyStr (file_hash be)), (''new_hash'', PyStr h)]]
                 else []))"
    unfolding f
    using calculate_file_hash_state_indep [of E p "HASH_ALGORITHM E" s empty_state]
    by (simp add: path_mismatch_def md assms(4) mismatch_eq)
  have 2: "length (filter (\<lambda>d. map_of d ''file'' = Some (PyStr p)) (modified c)) \<le> 1"
    unfolding f by (rule path_mismatch_length)
  have 3: "st_size st = file_size be \<and> st_mtime st = modification_time be
             \<and> st_mode st AND 511 = permissions be"
    if "\<exists>x \<in> set (drop (length (logged s)) (logged (snd (check_integrity E M s)))).
           hasher_event (snd x) = Some p"
  proof -
    from that obtain x where
      x: "x \<in> set (new_records s (snd (check_integrity E M s)))"
      and h: "hasher_event (snd x) = Some p"
      by (auto simp: new_records_def)
    from check_integrity_reads [OF run] x
    have "hasher_event (snd x) = None
      \<or> (\<exists>q \<in> fst ` set (rows s) \<inter> set (collect_current_paths E M).
            hasher_event (snd x) = Some q \<and> unchanged_metadata E (rows s) q)"
      by (auto simp: reads_only_def list_all_iff)
    with h have "unchanged_metadata E (rows s) p" by auto
    then show ?thesis by (simp add: unchanged_metadata_def md assms(4))
  qed
  from 1 2 3 show ?thesis by blast
qed

theorem check_integrity_comparison_order_witness:
  "filter (\<lambda>d. map_of d ''file'' = Some (PyStr ''/data/a.txt''))
     (modified (projr (fst (check_integrity sample_env sample_paths sample_state))))
     = [[(''file'', PyStr ''/data/a.txt''), (''type'', PyStr ''size_mismatch''),
         (''old_size'', PyInt 4), (''new_size'', PyInt 5)]]
   \<and> filter (\<lambda>d. map_of d ''file'' = Some (PyStr ''/data/a.txt''))
     (modified (projr (fst (check_integrity sample_env sample_paths_excluding
        sample_state_same_metadata))))
     = [[(''file'', PyStr ''/data/a.txt''), (''type'', PyStr ''hash_mismatch''),
         (''old_hash'', PyStr ''sha256:jello''), (''new_hash'', PyStr ''sha256:hello'')]]"
proof -
  have st: "os_stat sample_env ''/data/a.txt'' =
      Inr \<lparr>st_size = 5, st_mtime = 1700000000, st_ctime = 1700000000, st_mode = 33188\<rparr>"
    by (simp add: sample_env_def sample_stat_def)
  have h: "fst (calculate_file_hash sample_env ''/data/a.txt'' (HASH_ALGORITHM sample_env)
      sample_state_same_metadata) = Inr ''sha256:hello''"
    by (simp add: calculate_file_hash_result sample_env_def sample_open_def lower_sha256)
  have c1: "fst (check_integrity sample_env sample_paths sample_state) =
      Inr (projr (fst (check_integrity sample_env sample_paths sample_state)))"
    by (simp add: sample_check)
  have p1: "''/data/a.txt'' \<in> set (collect_current_paths sample_env sample_paths)"
    by (simp add: sample_current_paths)
  have b1: "map_of (rows sample_state) ''/data/a.txt'' =
      Some \<lparr>file_path = ''/data/a.txt'', file_size = 4, modification_time = 1690000000,
        creation_time = 1690000000, permissions = 420, file_hash = ''sha256:hell'',
        baseline_timestamp = 1690000500\<rparr>"
    by (simp add: sample_state_def)
  have c2: "fst (check_integrity sample_env sample_paths_excluding sample_state_same_metadata) =
      Inr (projr (fst (check_integrity sample_env sample_paths_excluding
        sample_state_same_metadata)))"
    by (simp add: sample_check_same_metadata)
  have p2: "''/data/a.txt'' \<in> set (collect_current_paths sample_env sample_paths_excluding)"
    by (simp add: sample_current_paths_excluding)
  have b2: "map_of (rows sample_state_same_metadata) ''/data/a.txt'' =
      Some \<lparr>file_path = ''/data/a.txt'', file_size = 5, modification_time = 1700000000,
        creation_time = 1700000000, permissions = 420, file_hash = ''sha256:jello'',
        baseline_timestamp = 1700000500\<rparr>"
    by (simp add: sample_state_same_metadata_def)
  show ?thesis
    using check_integrity_comparison_order [OF c1 p1 st b1]
      check_integrity_comparison_order [OF c2 p2 st b2]
    by (simp add: h)
qed

section \<open>Baseline creation and the round trip\<close>

lemma on_disk_same_row:
  "map_of rs' p = map_of rs p \<Longrightarrow> on_disk E rs' p = on_disk E rs p"
  by (simp add: on_disk_def split: sum.splits option.splits)

lemma scan_rel_Nil: "set (logged s) \<subseteq> set (logged s') \<Longrightarrow> rows s' = rows s
    \<Longrightarrow> (conn s \<longrightarrow> conn s') \<Longrightarrow> scan_rel E M [] (n, s) (n, s')"
  by (simp add: scan_rel_def)

lemma scan_rel_append:
  assumes "scan_rel E M xs a b" and "scan_rel E M ys b c"
  shows "scan_rel E M (xs @ ys) a c"
proof -
  have ab3: "map_of (rows (snd b)) p = map_of (rows (snd a)) p
            \<or> p \<in> set xs \<and> is_path_monitored E M p \<and> baselinable E p
                \<and> on_disk E (rows (snd b)) p" for p
    using assms(1) unfolding scan_rel_def by blast
  have bc3: "map_of (rows (snd c)) p = map_of (rows (snd b)) p
            \<or> p \<in> set ys \<and> is_path_monitored E M p \<and> baselinable E p
                \<and> on_disk E (rows (snd c)) p" for p
    using assms(2) unfolding scan_rel_def by blast
  have keep: "on_disk E (rows (snd c)) p" if "on_disk E (rows (snd b)) p" for p
    using bc3 [of p] that on_disk_same_row [of "rows (snd c)" p "rows (snd b)" E]
    by blast
  have 1: "fst c = fst a + length (filter (\<lambda>fp. is_path_monitored E M fp \<and> baselinable E fp)
      (xs @ ys))"
    using assms by (simp add: scan_rel_def)
  have 2: "conn (snd a) \<longrightarrow> conn (snd c)"
    using assms by (simp add: scan_rel_def)
  have 3: "\<forall>p. map_of (rows (snd c)) p = map_of (rows (snd a)) p
            \<or> p \<in> set (xs @ ys) \<and> is_path_monitored E M p \<and> baselinable E p
                \<and> on_disk E (rows (snd c)) p"
  proof
    fix p
    from ab3 [of p] bc3 [of p] keep [of p]
    show "map_of (rows (snd c)) p = map_of (rows (snd a)) p
            \<or> p \<in> set (xs @ ys) \<and> is_path_monitored E M p \<and> baselinable E p
                \<and> on_disk E (rows (snd c)) p"
      by (elim disjE conjE) simp_all
  qed
  have 4: "(conn (snd a) \<or> \<not> db_fails E OpConnect)
        \<and> (\<forall>fp \<in> set (xs @ ys). \<not> db_fails E (OpSave fp))
      \<longrightarrow> (\<forall>p \<in> set (xs @ ys). is_path_monitored E M p \<and> baselinable E p
                 \<longrightarrow> on_disk E (rows (snd c)) p)"
  proof (intro impI ballI)
    fix p
    assume w: "(conn (snd a) \<or> \<not> db_fails E OpConnect)
        \<and> (\<forall>fp \<in> set (xs @ ys). \<not> db_fails E (OpSave fp))"
      and p: "p \<in> set (xs @ ys)" and mb: "is_path_monitored E M p \<and> baselinable E p"
    have wx: "(conn (snd a) \<or> \<not> db_fails E OpConnect)
        \<and> (\<forall>fp \<in> set xs. \<not> db_fails E (OpSave fp))"
      using w by simp
    have x: "\<forall>p \<in> set xs. is_path_monitored E M p \<and> baselinable E p
                 \<longrightarrow> on_disk E (rows (snd b)) p"
      using assms(1) wx unfolding scan_rel_def by blast
    have "conn (snd a) \<longrightarrow> conn (snd b)"
      using assms(1) unfolding scan_rel_def by blast
    with w have wy: "(conn (snd b) \<or> \<not> db_fails E OpConnect)
        \<and> (\<forall>fp \<in> set ys. \<not> db_fails E (OpSave fp))"
      by auto
    have y: "\<forall>p \<in> set ys. is_path_monitored E M p \<and> baselinable E p
                 \<longrightarrow> on_disk E (rows (snd c)) p"
      using assms(2) wy unfolding scan_rel_def by blast
    from p have "p \<in> set xs \<or> p \<in> set ys" by simp
    then show "on_disk E (rows (snd c)) p"
    proof
      assume "p \<in> set xs"
      with x mb have "on_disk E (rows (snd b)) p" by blast
      then show ?thesis by (rule keep)
    next
      assume "p \<in> set ys"
      with y mb show ?thesis by blast
    qed
  qed
  have 5: "set (logged (snd a)) \<subseteq> set (logged (snd c))"
  proof -
    have "set (logged (snd a)) \<subseteq> set (logged (snd b))"
      using assms(1) unfolding scan_rel_def by blast
    moreover have "set (logged (snd b)) \<subseteq> set (logged (snd c))"
      using assms(2) unfolding scan_rel_def by blast
    ultimately show ?thesis by blast
  qed
  have 6: "\<forall>fp \<in> set (xs @ ys). \<forall>e. is_path_monitored E M fp
            \<and> fst (calculate_file_hash E fp (HASH_ALGORITHM E) empty_state) = Inl e
          \<longrightarrow> (ERROR, ProcessFailed fp e) \<in> set (logged (snd c))"
  proof (intro ballI allI impI)
    fix fp e
    assume fp: "fp \<in> set (xs @ ys)" and h: "is_path_monitored E M fp
            \<and> fst (calculate_file_hash E fp (HASH_ALGORITHM E) empty_state) = Inl e"
    have x: "fp \<in> set xs \<Longrightarrow> (ERROR, ProcessFailed fp e) \<in> set (logged (snd b))"
      using assms(1) h unfolding scan_rel_def by blast
    have y: "fp \<in> set ys \<Longrightarrow> (ERROR, ProcessFailed fp e) \<in> set (logged (snd c))"
      using assms(2) h unfolding scan_rel_def by blast
    have "set (logged (snd b)) \<subseteq> set (logged (snd c))"
      using assms(2) unfolding scan_rel_def by blast
    with x y fp show "(ERROR, ProcessFailed fp e) \<in> set (logged (snd c))"
      by auto
  qed
  show ?thesis
    unfolding scan_rel_def using 1 2 3 4 5 6 by (intro conjI)
qed

lemma calculate_file_hash_logs:
  "set (logged s) \<subseteq> set (logged (snd (calculate_file_hash E fp a s)))"
  using calculate_file_hash_reads [of fp s E a]
  by (auto simp: reads_only_def prefix_def)

lemma get_file_metadata_logs:
  "set (logged s) \<subseteq> set (logged (snd (get_file_metadata E fp s)))"
  using get_file_metadata_reads [of s E fp]
  by (auto simp: reads_only_def prefix_def)

lemma save_baseline_entry_logs:
  "save_baseline_entry E fp fh fs mt ct perms s = (r, s') \<Longrightarrow>
     set (logged s) \<subseteq> set (logged s') \<and> (conn s \<longrightarrow> conn s')"
  by (auto simp: save_baseline_entry_def get_connection_def logmsg_def Let_def
      split: if_splits)

lemma baseline_file_step: "scan_rel E M [fp] (n, s) (baseline_file E M (n, s) fp)"
proof (cases "is_path_monitored E M fp")
  case False
  then show ?thesis by (simp add: baseline_file_def scan_rel_def)
next
  case True
  obtain hr s1 where h: "calculate_file_hash E fp (HASH_ALGORITHM E) s = (hr, s1)"
    by (cases "calculate_file_hash E fp (HASH_ALGORITHM E) s")
  have hr: "fst (calculate_file_hash E fp (HASH_ALGORITHM E) empty_state) = hr"
    using h calculate_file_hash_state_indep [of E fp "HASH_ALGORITHM E" empty_state s] by simp
  have r1: "reads_only (\<lambda>e. hasher_event e = Some fp) s s1"
    using calculate_file_hash_reads [of fp s E "HASH_ALGORITHM E"] h by simp
  have l1: "set (logged s) \<subseteq> set (logged s1)"
    using calculate_file_hash_logs [of s E fp "HASH_ALGORITHM E"] h by simp
  show ?thesis
  proof (cases hr)
    case (Inl e)
    have "baseline_file E M (n, s) fp = (n, logmsg ERROR (ProcessFailed fp e) s1)"
      using True h Inl by (simp add: baseline_file_def)
    moreover have "\<not> baselinable E fp" using hr Inl by (simp add: baselinable_def)
    ultimately show ?thesis
      using r1 l1 hr Inl by (auto simp: scan_rel_def logmsg_def reads_only_def)
  next
    case (Inr fh)
    obtain m s2 where m: "get_file_metadata E fp s1 = (m, s2)"
      by (cases "get_file_metadata E fp s1")
    have m0: "fst (get_file_metadata E fp empty_state) = m"
      using m get_file_metadata_state_indep [of E fp empty_state s1] by simp
    have r2: "reads_only (\<lambda>e. hasher_event e = None) s1 s2"
      using get_file_metadata_reads [of s1 E fp] m by simp
    have l2: "set (logged s) \<subseteq> set (logged s2)"
      using l1 get_file_metadata_logs [of s1 E fp] m by auto
    have rows2: "rows s2 = rows s" "clock s2 = clock s" "conn s \<longrightarrow> conn s2"
      using r1 r2 by (auto simp: reads_only_def)
    show ?thesis
    proof (cases "m = None \<or> fh = []")
      case skip: True
      then have "baseline_file E M (n, s) fp = (n, s2)"
        using True h Inr m by (auto simp: baseline_file_def split: option.splits)
      moreover have "\<not> baselinable E fp"
        using hr Inr m0 skip by (auto simp: baselinable_def)
      ultimately show ?thesis
        using rows2 l2 hr Inr by (auto simp: scan_rel_def)
    next
      case False
      then obtain md where md: "m = Some md" and fh: "fh \<noteq> []" by auto
      obtain r s3 where sv: "save_baseline_entry E fp fh (file_size md) (modification_time md)
          (creation_time md) (permissions md) s2 = (r, s3)"
        by (cases "save_baseline_entry E fp fh (file_size md) (modification_time md)
          (creation_time md) (permissions md) s2")
      note C = save_baseline_entry_cases [OF sv]
      note L = save_baseline_entry_logs [OF sv]
      have res: "baseline_file E M (n, s) fp = (Suc n, s3)"
        using True h Inr m md fh sv C by (simp add: baseline_file_def)
      have b: "baselinable E fp"
        using hr Inr m0 md fh by (simp add: baselinable_def)
      have w: "on_disk E (rows s3) fp"
        if "\<not> ((\<not> conn s2 \<and> db_fails E OpConnect) \<or> db_fails E (OpSave fp))"
        using that C hr Inr m0 md
        by (simp add: on_disk_def map_of_insert_or_replace)
      have rows3: "map_of (rows s3) p = map_of (rows s) p \<or> p = fp \<and> on_disk E (rows s3) fp"
        for p
      proof (cases "(\<not> conn s2 \<and> db_fails E OpConnect) \<or> db_fails E (OpSave fp)")
        case True
        with C rows2 show ?thesis by simp
      next
        case False
        with C rows2 w show ?thesis by (auto simp: map_of_insert_or_replace)
      qed
      have 1: "conn s \<longrightarrow> conn s3" using rows2(3) L by simp
      have 2: "set (logged s) \<subseteq> set (logged s3)" using l2 L by auto
      have 3: "(conn s \<or> \<not> db_fails E OpConnect) \<and> \<not> db_fails E (OpSave fp)
          \<longrightarrow> on_disk E (rows s3) fp"
        using w rows2(3) by auto
      show ?thesis
        unfolding res scan_rel_def using True b rows3 1 2 3 hr Inr by auto
    qed
  qed
qed

lemma foldl_baseline_file:
  "scan_rel E M xs cs (foldl (baseline_file E M) cs xs)"
proof (induction xs arbitrary: cs)
  case Nil
  then show ?case by (simp add: scan_rel_def)
next
  case (Cons x xs)
  have "scan_rel E M [x] cs (baseline_file E M cs x)"
    using baseline_file_step [of E M x "fst cs" "snd cs"] by simp
  from scan_rel_append [OF this Cons.IH [of "baseline_file E M cs x"]]
  show ?case by simp
qed

lemma baseline_include_step:
  "scan_rel E M (visited_files E [ip]) cs (baseline_include E M cs ip)"
proof (cases "path_exists E (abspath E ip)")
  case True
  then show ?thesis
    using foldl_baseline_file [of E M "walked_files E (abspath E ip)" cs]
    by (simp add: baseline_include_def visited_files_def)
next
  case False
  then show ?thesis
    by (auto simp: baseline_include_def visited_files_def scan_rel_def logmsg_def)
qed

lemma visited_files_Cons:
  "visited_files E (ip # ips) = visited_files E [ip] @ visited_files E ips"
  by (simp add: visited_files_def)

lemma foldl_baseline_include:
  "scan_rel E M (visited_files E ips) cs (foldl (baseline_include E M) cs ips)"
proof (induction ips arbitrary: cs)
  case Nil
  then show ?case by (simp add: scan_rel_def visited_files_def)
next
  case (Cons ip ips)
  from scan_rel_append [OF baseline_include_step [of E M ip cs]
      Cons.IH [of "baseline_include E M cs ip"]]
  show ?case by (simp add: visited_files_Cons [of E ip ips])
qed

lemma baseline_scan_rel:
  "scan_rel E M (visited_files E (include_list M)) (0, s) (baseline_scan E M s)"
proof -
  have a: "scan_rel E M [] (0, s) (0, logmsg INFO CreatingBaseline s)"
    by (auto simp: scan_rel_def logmsg_def)
  from scan_rel_append [OF a foldl_baseline_include] show ?thesis
    by (simp add: baseline_scan_def)
qed







lemma create_baseline_rows:
  "rows (snd (create_baseline E M s)) = rows (snd (baseline_scan E M s))"
  by (simp add: create_baseline_def logmsg_def split: prod.splits)

lemma keys_map_of: "fst ` set rs = dom (map_of rs)"
  by (simp add: dom_map_of_conv_image_fst)


lemma scan_rel_rows:
  "scan_rel E M xs cs cs' \<Longrightarrow>
   map_of (rows (snd cs')) p = map_of (rows (snd cs)) p
     \<or> p \<in> set xs \<and> is_path_monitored E M p \<and> baselinable E p \<and> on_disk E (rows (snd cs')) p"
  unfolding scan_rel_def by (elim conjE allE [of _ p])



lemma scan_rel_conn:
  "scan_rel E M xs cs cs' \<Longrightarrow> conn (snd cs) \<Longrightarrow> conn (snd cs')"
  unfolding scan_rel_def by (elim conjE) blast













lemma sample_exclude_after_baseline:
  "fst (check_integrity sample_env sample_paths_excluding
         (snd (create_baseline sample_env sample_paths empty_state)))
     = Inr \<lparr>added = [], modified = [],
            deleted = [[(''file'', PyStr ''/data/tmp/b.txt''),
                        (''reason'', PyStr ''File deleted from monitored path'')]]\<rparr>"
  by code_simp

lemma sample_baseline:
  "rows (snd (create_baseline sample_env sample_paths empty_state)) =
     [(''/data/a.txt'',
        \<lparr>file_path = ''/data/a.txt'', file_size = 5, modification_time = 1700000000,
         creation_time = 1700000000, permissions = 420, file_hash = ''sha256:hello'',
         baseline_timestamp = 1700001000\<rparr>),
      (''/data/tmp/b.txt'',
        \<lparr>file_path = ''/data/tmp/b.txt'', file_size = 2, modification_time = 1700000100,
         creation_time = 1700000100, permissions = 384, file_hash = ''sha256:hi'',
         baseline_timestamp = 1700001001\<rparr>)]"
  by code_simp








text \<open>
  Claim C8, as amended. Let the absolute path of some exclude entry be a prefix of
  \<open>p\<close> (whether or not \<open>p\<close> lies under an include entry too). Then
  \<^verbatim>\<open>create_baseline\<close> leaves the store's entry for \<open>p\<close> as it was, so it never writes
  one; a report of \<^verbatim>\<open>check_integrity\<close> never lists \<open>p\<close> as added or modified, and lists
  it as deleted exactly when the store already holds a row for \<open>p\<close>. When the store
  holds none, \<^verbatim>\<open>create_baseline\<close> followed by \<^verbatim>\<open>check_integrity\<close> lists \<open>p\<close> nowhere.
\<close>

theorem excluded_path_never_baselined:
  assumes "\<exists>e \<in> set (exclude_list M). prefix (abspath E e) p"
  shows "map_of (rows (snd (create_baseline E M s))) p = map_of (rows s) p
    \<and> (fst (check_integrity E M s) = Inr c \<longrightarrow>
         Some (PyStr p) \<notin> set (map (\<lambda>d. map_of d ''file'') (added c @ modified c))
         \<and> (Some (PyStr p) \<in> set (map (\<lambda>d. map_of d ''file'') (deleted c))
              \<longleftrightarrow> p \<in> fst ` set (rows s)))
    \<and> (p \<notin> fst ` set (rows s)
         \<and> fst (check_integrity E M (snd (create_baseline E M s))) = Inr c' \<longrightarrow>
         Some (PyStr p) \<notin>
           set (map (\<lambda>d. map_of d ''file'') (added c' @ modified c' @ deleted c')))"
proof -
  have nm: "\<not> is_path_monitored E M p"
    using assms by (simp add: is_path_monitored_def any_startswith_iff)
  then have nc: "p \<notin> set (collect_current_paths E M)"
    by (simp add: collect_current_paths_set)
  have 1: "map_of (rows (snd (create_baseline E M s))) p = map_of (rows s) p"
    using scan_rel_rows [OF baseline_scan_rel [of E M s], of p] nm
    by (simp add: create_baseline_rows)
  have rep: "Some (PyStr p) \<notin> set (map (\<lambda>d. map_of d ''file'') (added c @ modified c))
         \<and> (Some (PyStr p) \<in> set (map (\<lambda>d. map_of d ''file'') (deleted c))
              \<longleftrightarrow> p \<in> fst ` set (rows t))"
    if "fst (check_integrity E M t) = Inr c" for t c
  proof -
    from that have run: "check_integrity E M t = (Inr c, snd (check_integrity E M t))"
      by (metis prod.collapse)
    note F = report_files [OF run]
    have "Some (PyStr p) \<notin> set (map (\<lambda>d. map_of d ''file'') (added c))"
      unfolding F(4) using nc by auto
    moreover have "Some (PyStr p) \<notin> set (map (\<lambda>d. map_of d ''file'') (modified c))"
      using F(5) nc by auto
    moreover have "Some (PyStr p) \<in> set (map (\<lambda>d. map_of d ''file'') (deleted c))
              \<longleftrightarrow> p \<in> fst ` set (rows t)"
      unfolding F(6) using nc by auto
    ultimately show ?thesis by simp
  qed
  have 3: "Some (PyStr p) \<notin>
           set (map (\<lambda>d. map_of d ''file'') (added c' @ modified c' @ deleted c'))"
    if "p \<notin> fst ` set (rows s)"
      and "fst (check_integrity E M (snd (create_baseline E M s))) = Inr c'"
  proof -
    from that(1) have "map_of (rows s) p = None" by (simp add: map_of_eq_None_iff)
    with 1 have "p \<notin> fst ` set (rows (snd (create_baseline E M s)))"
      by (simp add: map_of_eq_None_iff)
    with rep [OF that(2)] show ?thesis by simp
  qed
  from 1 rep [of s c] 3 show ?thesis by blast
qed

theorem excluded_path_never_baselined_witness:
  "map_of (rows (snd (create_baseline sample_env sample_paths_excluding empty_state)))
     ''/data/tmp/b.txt'' = None
   \<and> prefix (abspath sample_env ''/data'') ''/data/tmp/b.txt''
   \<and> prefix (abspath sample_env ''/data/tmp'') ''/data/tmp/b.txt''"
proof -
  have ex: "\<exists>e \<in> set (exclude_list sample_paths_excluding).
      prefix (abspath sample_env e) ''/data/tmp/b.txt''"
    by (simp add: sample_paths_excluding_def sample_env_def)
  from excluded_path_never_baselined [OF ex, of empty_state] show ?thesis
    by (simp add: empty_state_def sample_env_def)
qed

text \<open>
  The claim as first stated has an excluded file in no report at all. A store
  baselined while \<^verbatim>\<open>/data/tmp\<close> was not yet excluded holds a row for
  \<^verbatim>\<open>/data/tmp/b.txt\<close>; once the exclude entry is added, the check reports that file as
  deleted.
\<close>

theorem excluded_path_never_baselined_counterexample:
  "prefix (abspath sample_env ''/data'') ''/data/tmp/b.txt''
   \<and> prefix (abspath sample_env ''/data/tmp'') ''/data/tmp/b.txt''
   \<and> ''/data'' \<in> set (include_list sample_paths_excluding)
   \<and> ''/data/tmp'' \<in> set (exclude_list sample_paths_excluding)
   \<and> fst (check_integrity sample_env sample_paths_excluding
         (snd (create_baseline sample_env sample_paths empty_state)))
     = Inr \<lparr>added = [], modified = [],
            deleted = [[(''file'', PyStr ''/data/tmp/b.txt''),
                        (''reason'', PyStr ''File deleted from monitored path'')]]\<rparr>"
proof -
  have a: "prefix (abspath sample_env ''/data'') ''/data/tmp/b.txt''"
    "prefix (abspath sample_env ''/data/tmp'') ''/data/tmp/b.txt''"
    by (simp_all add: sample_env_def)
  have b: "''/data'' \<in> set (include_list sample_paths_excluding)"
    "''/data/tmp'' \<in> set (exclude_list sample_paths_excluding)"
    by (simp_all add: sample_paths_excluding_def)
  from a b sample_exclude_after_baseline show ?thesis by (intro conjI)
qed

end
